theory Spec2Isabelle
  imports Complex_Main
begin

section \<open>MNIST experiment manager: store, lifecycle runner and HTTP handlers\<close>

text \<open>
  The development embeds the server side of the experiment manager: the SQLite store and
  its operations (the \<^verbatim>\<open>db\<close> object), the lifecycle runner \<^verbatim>\<open>runExperiment\<close>, and the
  route handlers \<^verbatim>\<open>POST /api/experiments\<close>, \<^verbatim>\<open>GET\<close>/\<^verbatim>\<open>DELETE /api/experiments/[id]\<close>
  and \<^verbatim>\<open>POST /api/experiments/[id]/run\<close>.

  Modelling decisions, each visible in the definitions below:
  \<^item> JavaScript numbers are idealised as reals; \<^verbatim>\<open>Math.exp\<close> is the real exponential.
    Rounding of doubles and overflow to \<^verbatim>\<open>Infinity\<close> are not modelled. A number of the
    request body is any real: nothing on the server makes \<^verbatim>\<open>epochs\<close> or \<^verbatim>\<open>batch_size\<close>
    an integer, and SQLite keeps a value such as 2.5 as it is in a column declared
    \<^verbatim>\<open>INTEGER\<close>. The row ids, the loop counter of the runner and with it the columns
    \<^verbatim>\<open>current_epoch\<close> and \<^verbatim>\<open>epoch\<close> only ever hold integers and are of type \<open>int\<close>.
  \<^item> The JSON body of a create request is a record of eight optional fields, each of the
    type the client sends; an absent key, \<^verbatim>\<open>undefined\<close> and \<^verbatim>\<open>null\<close> are all \<open>None\<close>.
    Values of another JSON type are outside the model.
  \<^item> A table is the list of its rows in insertion order. \<^verbatim>\<open>AUTOINCREMENT\<close> keeps the
    largest row id ever handed out in a sequence counter.
  \<^item> \<^verbatim>\<open>Math.random()\<close> reads an external stream \<open>rnd\<close> of draws; the world counts the
    calls made so far, so the \<open>k\<close>-th call returns \<open>rnd k\<close>.
  \<^item> \<^verbatim>\<open>Date.now()\<close> reads a clock in milliseconds that advances only while the runner
    sleeps, by the delay asked for. Store statements take no time.
  \<^item> A route handler is a function of the world it finds: its statements are taken
    together, although the source gives control back at each \<^verbatim>\<open>await\<close>. Where the
    interleaving of two handlers matters, for two requests to run one experiment, the
    handler is also given in the two parts its \<^verbatim>\<open>await\<close> cuts it into (\<open>POST_run_check\<close>).
    The runner is modelled step by step, one \<^verbatim>\<open>await\<close> at a time.
  \<^item> Storage faults (the disk failing under a statement) are not modelled; the only
    exception raised inside the runner's \<^verbatim>\<open>try\<close> block is the \<^verbatim>\<open>TypeError\<close> of reading
    a property of an undefined \<^verbatim>\<open>lastEpoch\<close>.
\<close>

subsection \<open>Data model\<close>

text \<open>The parsed body of a create request (\<^verbatim>\<open>const data = await request.json()\<close>).\<close>

record data =
  name :: "string option"
  learning_rate :: "real option"
  batch_size :: "real option"
  epochs :: "real option"
  optimizer :: "string option"
  model_type :: "string option"
  hidden_layers :: "real option"
  neurons_per_layer :: "real option"

text \<open>\<^verbatim>\<open>interface ExperimentHistory\<close>, and a row of table \<^verbatim>\<open>experiment_history\<close>.\<close>

record ExperimentHistory =
  epoch :: int
  train_loss :: real
  val_loss :: real
  train_acc :: real
  val_acc :: real

record experiment_history_row = ExperimentHistory +
  history_id :: int
  experiment_id :: int

text \<open>
  A row of table \<^verbatim>\<open>experiments\<close>, columns in the order of the \<^verbatim>\<open>CREATE TABLE\<close>
  statement (field \<open>id'\<close> is column \<^verbatim>\<open>id\<close>), and \<^verbatim>\<open>interface ExperimentDetails\<close>: the row
  together with its history.
\<close>

record experiments_row =
  id' :: int
  name :: string
  learning_rate :: real
  batch_size :: real
  epochs :: real
  optimizer :: string
  model_type :: string
  hidden_layers :: real
  neurons_per_layer :: real
  status :: string
  created_at :: nat
  accuracy :: "real option"
  loss :: "real option"
  duration :: "real option"
  current_epoch :: int

record ExperimentDetails = experiments_row +
  history :: "ExperimentHistory list"

text \<open>
  The world the server runs in: the two tables with their \<^verbatim>\<open>AUTOINCREMENT\<close> counters,
  the clock, the number of \<^verbatim>\<open>Math.random()\<close> calls made, and the pending timers of
  \<^verbatim>\<open>queueExperiment\<close> (due time and experiment id).
\<close>

record world =
  experiments :: "experiments_row list"
  experiments_seq :: int
  experiment_history :: "experiment_history_row list"
  experiment_history_seq :: int
  now :: nat
  random_calls :: nat
  timers :: "(nat \<times> int) list"

definition empty_world :: world where
  "empty_world = \<lparr>experiments = [], experiments_seq = 0, experiment_history = [],
     experiment_history_seq = 0, now = 0, random_calls = 0, timers = []\<rparr>"

subsection \<open>SQL statements\<close>

text \<open>The row id \<^verbatim>\<open>AUTOINCREMENT\<close> assigns: one more than every id used so far.\<close>

definition next_rowid :: "int \<Rightarrow> int list \<Rightarrow> int" where
  "next_rowid seq ids = fold max ids seq + 1"

text \<open>\<^verbatim>\<open>UPDATE experiments SET ... WHERE id = ?\<close>\<close>

definition update_experiments ::
    "int \<Rightarrow> (experiments_row \<Rightarrow> experiments_row) \<Rightarrow> world \<Rightarrow> world" where
  "update_experiments i f w =
     w\<lparr>experiments := map (\<lambda>r. if id' r = i then f r else r) (experiments w)\<rparr>"

text \<open>\<^verbatim>\<open>DELETE FROM experiment_history WHERE experiment_id = ?\<close>\<close>

definition delete_history :: "int \<Rightarrow> world \<Rightarrow> world" where
  "delete_history i w =
     w\<lparr>experiment_history := filter (\<lambda>h. experiment_id h \<noteq> i) (experiment_history w)\<rparr>"

text \<open>\<^verbatim>\<open>DELETE FROM experiments WHERE id = ?\<close>\<close>

definition delete_experiments :: "int \<Rightarrow> world \<Rightarrow> world" where
  "delete_experiments i w =
     w\<lparr>experiments := filter (\<lambda>r. id' r \<noteq> i) (experiments w)\<rparr>"

text \<open>\<^verbatim>\<open>INSERT INTO experiment_history (experiment_id, epoch, ...) VALUES (...)\<close>\<close>

definition insert_history ::
    "int \<Rightarrow> int \<Rightarrow> real \<Rightarrow> real \<Rightarrow> real \<Rightarrow> real \<Rightarrow> world \<Rightarrow> world" where
  "insert_history i e trainLoss valLoss trainAcc valAcc w =
     (let k = next_rowid (experiment_history_seq w) (map history_id (experiment_history w))
      in w\<lparr>experiment_history := experiment_history w @
              [\<lparr>epoch = e, train_loss = trainLoss, val_loss = valLoss, train_acc = trainAcc,
                val_acc = valAcc, history_id = k, experiment_id = i\<rparr>],
            experiment_history_seq := k\<rparr>)"

text \<open>
  \<^verbatim>\<open>SELECT epoch, train_loss, val_loss, train_acc, val_acc FROM experiment_history
  WHERE experiment_id = ? ORDER BY epoch\<close>. Rows of equal epoch keep their insertion order.
\<close>

definition select_history :: "int \<Rightarrow> world \<Rightarrow> ExperimentHistory list" where
  "select_history i w =
     map ExperimentHistory.truncate
       (sort_key epoch (filter (\<lambda>h. experiment_id h = i) (experiment_history w)))"

text \<open>
  \<^verbatim>\<open>SELECT ... FROM experiment_history WHERE experiment_id = ? ORDER BY epoch DESC LIMIT 1\<close>:
  the row of largest epoch, \<open>None\<close> for \<^verbatim>\<open>undefined\<close> when there is no row. The rows are
  sorted by decreasing epoch and the first is taken; rows of equal epoch keep their
  insertion order, so of several rows with the largest epoch it is the one inserted
  first. The statement selects the four metrics only; the result keeps the epoch as
  well, which the runner never reads.
\<close>

definition select_last_epoch :: "int \<Rightarrow> world \<Rightarrow> ExperimentHistory option" where
  "select_last_epoch i w =
     (case sort_key (\<lambda>h. - epoch h)
             (filter (\<lambda>h. experiment_id h = i) (experiment_history w)) of
        [] \<Rightarrow> None
      | h # _ \<Rightarrow> Some (ExperimentHistory.truncate h))"

subsection \<open>Store operations (the \<^verbatim>\<open>db\<close> object)\<close>

definition getExperimentDetails :: "int \<Rightarrow> world \<Rightarrow> ExperimentDetails option" where
  "getExperimentDetails i w =
     (case find (\<lambda>r. id' r = i) (experiments w) of
        None \<Rightarrow> None
      | Some experiment \<Rightarrow>
          Some (experiments_row.extend experiment
                  (ExperimentDetails.fields (select_history i w))))"

text \<open>
  \<^verbatim>\<open>findSimilarExperiment\<close> returns the \<^verbatim>\<open>id\<close> of the first row whose seven configuration
  columns equal the bound parameters. A parameter that is \<^verbatim>\<open>undefined\<close> is bound as
  \<^verbatim>\<open>NULL\<close>, and \<^verbatim>\<open>column = NULL\<close> selects no row.
\<close>

definition similar :: "data \<Rightarrow> experiments_row \<Rightarrow> bool" where
  "similar d r \<longleftrightarrow>
     data.learning_rate d = Some (learning_rate r) \<and>
     data.batch_size d = Some (batch_size r) \<and>
     data.epochs d = Some (epochs r) \<and>
     data.optimizer d = Some (optimizer r) \<and>
     data.model_type d = Some (model_type r) \<and>
     data.hidden_layers d = Some (hidden_layers r) \<and>
     data.neurons_per_layer d = Some (neurons_per_layer r)"

definition findSimilarExperiment :: "data \<Rightarrow> world \<Rightarrow> int option" where
  "findSimilarExperiment d w = map_option id' (find (similar d) (experiments w))"

text \<open>
  An exception thrown inside a handler or the store: a violated \<^verbatim>\<open>NOT NULL\<close> constraint
  of the schema, or a property read on \<^verbatim>\<open>null\<close>/\<^verbatim>\<open>undefined\<close>.
\<close>

datatype error = SQLITE_CONSTRAINT | TypeError

text \<open>
  \<^verbatim>\<open>createExperiment\<close>: the eight inserted columns are \<^verbatim>\<open>NOT NULL\<close>, so the insertion
  throws when a bound value is missing and changes nothing. Otherwise the new row takes
  the column defaults (\<^verbatim>\<open>status = 'not_started'\<close>, \<^verbatim>\<open>current_epoch = 0\<close>, the creation time
  in seconds, results \<^verbatim>\<open>NULL\<close>) and is read back with \<^verbatim>\<open>getExperimentDetails\<close>.
\<close>

definition createExperiment ::
    "data \<Rightarrow> world \<Rightarrow> error + (ExperimentDetails option \<times> world)" where
  "createExperiment d w =
     (case (data.name d, data.learning_rate d, data.batch_size d, data.epochs d,
            data.optimizer d, data.model_type d, data.hidden_layers d,
            data.neurons_per_layer d) of
        (Some n, Some lr, Some bs, Some ep, Some opt, Some mt, Some hl, Some npl) \<Rightarrow>
          (let lastID = next_rowid (experiments_seq w) (map id' (experiments w));
               w' = w\<lparr>experiments := experiments w @
                      [\<lparr>id' = lastID, name = n, learning_rate = lr, batch_size = bs,
                        epochs = ep, optimizer = opt, model_type = mt, hidden_layers = hl,
                        neurons_per_layer = npl, status = ''not_started'',
                        created_at = now w div 1000, accuracy = None, loss = None,
                        duration = None, current_epoch = 0\<rparr>],
                     experiments_seq := lastID\<rparr>
           in Inr (getExperimentDetails lastID w', w'))
      | _ \<Rightarrow> Inl SQLITE_CONSTRAINT)"

definition deleteExperiment :: "int \<Rightarrow> world \<Rightarrow> world" where
  "deleteExperiment i w = delete_experiments i (delete_history i w)"

text \<open>
  \<^verbatim>\<open>queueExperiment\<close>: two statements, then \<^verbatim>\<open>setTimeout(() => this.runExperiment(id), 1000)\<close>
  registers the runner as a timer.
\<close>

definition queueExperiment :: "int \<Rightarrow> world \<Rightarrow> world" where
  "queueExperiment i w =
     (let w1 = update_experiments i (\<lambda>r. r\<lparr>status := ''queued'', current_epoch := 0\<rparr>) w;
          w2 = delete_history i w1
      in w2\<lparr>timers := timers w2 @ [(now w2 + 1000, i)]\<rparr>)"

subsection \<open>The lifecycle runner\<close>

text \<open>
  \<^verbatim>\<open>runExperiment\<close> is an \<^verbatim>\<open>async\<close> function: it gives control back at every \<^verbatim>\<open>await\<close>,
  and a poll of the store can see the state between two of them. A runner is therefore
  the point it is suspended at, with the local variables live there
  (\<^verbatim>\<open>id\<close>, \<^verbatim>\<open>experiment\<close>, \<^verbatim>\<open>startTime\<close>, \<^verbatim>\<open>epoch\<close>, the four metrics, \<^verbatim>\<open>duration\<close>,
  \<^verbatim>\<open>lastEpoch\<close>):
  \<^item> \<open>Called\<close>: before \<^verbatim>\<open>await this.getExperimentDetails(id)\<close>;
  \<^item> \<open>UpdateRunning\<close>: before \<^verbatim>\<open>UPDATE experiments SET status = 'running'\<close>;
  \<^item> \<open>UpdateEpoch\<close>: inside the loop, before \<^verbatim>\<open>UPDATE experiments SET current_epoch = epoch\<close>;
  \<^item> \<open>Sleeping\<close>: before \<^verbatim>\<open>await new Promise((resolve) => setTimeout(resolve, 1000))\<close>;
  \<^item> \<open>InsertHistory\<close>: metrics computed, before \<^verbatim>\<open>INSERT INTO experiment_history\<close>;
  \<^item> \<open>SelectLast\<close>: loop left and duration computed, before the \<^verbatim>\<open>SELECT\<close> of the last epoch;
  \<^item> \<open>UpdateCompleted\<close>: before the \<^verbatim>\<open>UPDATE\<close> that stores the results;
  \<^item> \<open>UpdateFailed\<close>: in the \<^verbatim>\<open>catch\<close> block, before \<^verbatim>\<open>UPDATE experiments SET status = 'failed'\<close>;
  \<^item> \<open>Returned\<close>: the function has returned.
\<close>

datatype runner =
    Called int
  | UpdateRunning int ExperimentDetails
  | UpdateEpoch int ExperimentDetails nat int
  | Sleeping int ExperimentDetails nat int
  | InsertHistory int ExperimentDetails nat int real real real real
  | SelectLast int real
  | UpdateCompleted int real ExperimentHistory
  | UpdateFailed int
  | Returned

text \<open>
  The loop test \<^verbatim>\<open>epoch <= experiment.epochs\<close>, and what follows the loop when it fails:
  \<^verbatim>\<open>const duration = (Date.now() - startTime) / 1000\<close>.
\<close>

definition loop_test :: "int \<Rightarrow> ExperimentDetails \<Rightarrow> nat \<Rightarrow> int \<Rightarrow> world \<Rightarrow> runner" where
  "loop_test i experiment startTime e w =
     (if real_of_int e \<le> epochs experiment then UpdateEpoch i experiment startTime e
      else SelectLast i ((real (now w) - real startTime) / 1000))"

text \<open>
  One step: the awaited statement, then the synchronous code up to the next \<^verbatim>\<open>await\<close>.
  The four metrics are computed when the sleep is over, each with its own
  \<^verbatim>\<open>Math.random()\<close> call, in the order of the source.
\<close>

fun step :: "(nat \<Rightarrow> real) \<Rightarrow> runner \<Rightarrow> world \<Rightarrow> runner \<times> world" where
  "step rnd (Called i) w =
     (case getExperimentDetails i w of
        None \<Rightarrow> (Returned, w)
      | Some experiment \<Rightarrow> (UpdateRunning i experiment, w))"
| "step rnd (UpdateRunning i experiment) w =
     (let w' = update_experiments i (\<lambda>r. r\<lparr>status := ''running''\<rparr>) w;
          startTime = now w'
      in (loop_test i experiment startTime 1 w', w'))"
| "step rnd (UpdateEpoch i experiment startTime e) w =
     (Sleeping i experiment startTime e,
      update_experiments i (\<lambda>r. r\<lparr>current_epoch := e\<rparr>) w)"
| "step rnd (Sleeping i experiment startTime e) w =
     (let w' = w\<lparr>now := now w + 1000\<rparr>;
          k = random_calls w';
          trainLoss = 0.5 * exp (- 0.1 * real_of_int e) + 0.1 * rnd k;
          valLoss = 0.6 * exp (- 0.1 * real_of_int e) + 0.15 * rnd (k + 1);
          trainAcc = 0.9 - 0.5 * exp (- 0.2 * real_of_int e) + 0.05 * rnd (k + 2);
          valAcc = 0.85 - 0.5 * exp (- 0.2 * real_of_int e) + 0.05 * rnd (k + 3)
      in (InsertHistory i experiment startTime e trainLoss valLoss trainAcc valAcc,
          w'\<lparr>random_calls := k + 4\<rparr>))"
| "step rnd (InsertHistory i experiment startTime e trainLoss valLoss trainAcc valAcc) w =
     (let w' = insert_history i e trainLoss valLoss trainAcc valAcc w
      in (loop_test i experiment startTime (e + 1) w', w'))"
| "step rnd (SelectLast i d) w =
     (case select_last_epoch i w of
        None \<Rightarrow> (UpdateFailed i, w)
      | Some lastEpoch \<Rightarrow> (UpdateCompleted i d lastEpoch, w))"
| "step rnd (UpdateCompleted i d lastEpoch) w =
     (Returned,
      update_experiments i
        (\<lambda>r. r\<lparr>status := ''completed'', accuracy := Some (val_acc lastEpoch),
               loss := Some (val_loss lastEpoch), duration := Some d\<rparr>) w)"
| "step rnd (UpdateFailed i) w =
     (Returned, update_experiments i (\<lambda>r. r\<lparr>status := ''failed''\<rparr>) w)"
| "step rnd Returned w = (Returned, w)"

text \<open>
  The number of steps a runner still takes, at most; it decreases with every step, which
  is why a run left alone always returns.
\<close>

fun steps_left :: "runner \<Rightarrow> world \<Rightarrow> nat" where
  "steps_left (Called i) w =
     (case getExperimentDetails i w of
        None \<Rightarrow> 1
      | Some experiment \<Rightarrow> 3 * nat \<lfloor>epochs experiment\<rfloor> + 7)"
| "steps_left (UpdateRunning i experiment) w = 3 * nat \<lfloor>epochs experiment\<rfloor> + 6"
| "steps_left (UpdateEpoch i experiment startTime e) w = 3 * nat (\<lfloor>epochs experiment\<rfloor> - e) + 5"
| "steps_left (Sleeping i experiment startTime e) w = 3 * nat (\<lfloor>epochs experiment\<rfloor> - e) + 4"
| "steps_left (InsertHistory i experiment startTime e trainLoss valLoss trainAcc valAcc) w =
     3 * nat (\<lfloor>epochs experiment\<rfloor> - e) + 3"
| "steps_left (SelectLast i d) w = 2"
| "steps_left (UpdateCompleted i d lastEpoch) w = 1"
| "steps_left (UpdateFailed i) w = 1"
| "steps_left Returned w = 0"

text \<open>
  A run that nothing interleaves with: the configurations from the call to the return,
  in order. \<open>runExperiment\<close> is the world it leaves. The list of pending timers is not
  read by the runner; the transition system below is where a timer is taken off it.
\<close>

function run :: "(nat \<Rightarrow> real) \<Rightarrow> runner \<Rightarrow> world \<Rightarrow> (runner \<times> world) list" where
  "run rnd r w =
     (if r = Returned then [(r, w)]
      else (r, w) # run rnd (fst (step rnd r w)) (snd (step rnd r w)))"
  by pat_completeness auto
termination
proof (relation "measure (\<lambda>(rnd, r, w). steps_left r w)")
  show "wf (measure (\<lambda>(rnd, r, w). steps_left r w))"
    by simp
next
  fix rnd :: "nat \<Rightarrow> real" and r :: runner and w :: world
  assume "r \<noteq> Returned"
  then have "steps_left (fst (step rnd r w)) (snd (step rnd r w)) < steps_left r w"
    by (cases r) (auto simp: loop_test_def Let_def split: option.splits, linarith)
  then show "((rnd, fst (step rnd r w), snd (step rnd r w)), (rnd, r, w))
             \<in> measure (\<lambda>(rnd, r, w). steps_left r w)"
    by (simp add: case_prod_beta)
qed

definition runExperiment :: "(nat \<Rightarrow> real) \<Rightarrow> int \<Rightarrow> world \<Rightarrow> world" where
  "runExperiment rnd i w = snd (last (run rnd (Called i) w))"

subsection \<open>Route handlers\<close>

text \<open>What a handler passes to \<^verbatim>\<open>NextResponse.json\<close>: the JSON body and the status code.\<close>

datatype json =
    ErrorJson string
  | ConflictJson string int
  | ExperimentJson ExperimentDetails
  | SuccessJson

datatype response = NextResponse (json_body: json) (http_status: nat)

text \<open>
  JavaScript truthiness on the values of the model: \<^verbatim>\<open>!x\<close> holds for \<^verbatim>\<open>undefined\<close>,
  \<^verbatim>\<open>null\<close>, the empty string and the number zero.
\<close>

definition falsy_string :: "string option \<Rightarrow> bool" where
  "falsy_string x = (case x of None \<Rightarrow> True | Some s \<Rightarrow> s = [])"

definition falsy_number :: "'a::zero option \<Rightarrow> bool" where
  "falsy_number x = (case x of None \<Rightarrow> True | Some n \<Rightarrow> n = 0)"

text \<open>
  \<^verbatim>\<open>POST /api/experiments\<close>. The body is \<open>None\<close> when \<^verbatim>\<open>request.json()\<close> throws or yields
  \<^verbatim>\<open>null\<close>; every exception ends in the \<^verbatim>\<open>catch\<close> block, which answers 500. The
  experiment sent back is the value \<^verbatim>\<open>createExperiment\<close> returned, fetched before
  \<^verbatim>\<open>queueExperiment\<close> ran.
\<close>

definition POST :: "data option \<Rightarrow> world \<Rightarrow> response \<times> world" where
  "POST body w =
     (case body of
        None \<Rightarrow> (NextResponse (ErrorJson ''Failed to create experiment'') 500, w)
      | Some d \<Rightarrow>
          if falsy_string (data.name d) \<or> falsy_number (data.learning_rate d) \<or>
             falsy_number (data.batch_size d) \<or> falsy_number (data.epochs d) \<or>
             falsy_string (data.optimizer d)
          then (NextResponse (ErrorJson ''Missing required fields'') 400, w)
          else
            (case findSimilarExperiment d w of
               Some existingId \<Rightarrow>
                 (NextResponse (ConflictJson ''Similar experiment already exists'' existingId) 409,
                  w)
             | None \<Rightarrow>
                 (case createExperiment d w of
                    Inl err \<Rightarrow> (NextResponse (ErrorJson ''Failed to create experiment'') 500, w)
                  | Inr (None, w1) \<Rightarrow>
                      (NextResponse (ErrorJson ''Failed to create experiment'') 500, w1)
                  | Inr (Some experiment, w1) \<Rightarrow>
                      (NextResponse (ExperimentJson experiment) 201,
                       queueExperiment (id' experiment) w1))))"

text \<open>
  \<^verbatim>\<open>Number.parseInt\<close> without a radix, on a string of bytes: leading white space is
  skipped, then an optional sign, then \<^verbatim>\<open>0x\<close>/\<^verbatim>\<open>0X\<close> selects radix 16, and the longest
  run of digits is read; \<open>None\<close> is \<^verbatim>\<open>NaN\<close>. White space beyond ASCII and the rounding of
  integers above \<open>2^53\<close> are not modelled.
\<close>

definition isWhiteSpace :: "char \<Rightarrow> bool" where
  "isWhiteSpace c \<longleftrightarrow> c \<in> set [CHR 0x09, CHR 0x0A, CHR 0x0B, CHR 0x0C, CHR 0x0D, CHR 0x20]"

definition digitValue :: "char \<Rightarrow> nat option" where
  "digitValue c =
     (let n = (of_char c :: nat)
      in if 48 \<le> n \<and> n \<le> 57 then Some (n - 48)
         else if 97 \<le> n \<and> n \<le> 122 then Some (n - 87)
         else if 65 \<le> n \<and> n \<le> 90 then Some (n - 55)
         else None)"

definition isDigit :: "nat \<Rightarrow> char \<Rightarrow> bool" where
  "isDigit R c = (case digitValue c of None \<Rightarrow> False | Some v \<Rightarrow> v < R)"

definition mathInt :: "nat \<Rightarrow> string \<Rightarrow> nat" where
  "mathInt R Z = foldl (\<lambda>a c. a * R + (case digitValue c of None \<Rightarrow> 0 | Some v \<Rightarrow> v)) 0 Z"

definition parseInt :: "string \<Rightarrow> int option" where
  "parseInt string =
     (let S = dropWhile isWhiteSpace string;
          sign = (if take 1 S = ''-'' then - 1 else 1 :: int);
          S1 = (if take 1 S = ''+'' \<or> take 1 S = ''-'' then drop 1 S else S);
          hex = (take 2 S1 = ''0x'' \<or> take 2 S1 = ''0X'');
          R = (if hex then 16 else 10);
          S2 = (if hex then drop 2 S1 else S1);
          Z = takeWhile (isDigit R) S2
      in if Z = [] then None else Some (sign * int (mathInt R Z)))"

text \<open>
  \<^verbatim>\<open>GET /api/experiments/[id]\<close>, the request a client polls with. A \<^verbatim>\<open>NaN\<close> id is bound
  as \<^verbatim>\<open>NULL\<close> and selects no row.
\<close>

definition GET :: "string \<Rightarrow> world \<Rightarrow> response \<times> world" where
  "GET params_id w =
     (case parseInt params_id of
        None \<Rightarrow> (NextResponse (ErrorJson ''Experiment not found'') 404, w)
      | Some i \<Rightarrow>
          (case getExperimentDetails i w of
             None \<Rightarrow> (NextResponse (ErrorJson ''Experiment not found'') 404, w)
           | Some experiment \<Rightarrow> (NextResponse (ExperimentJson experiment) 200, w)))"

text \<open>\<^verbatim>\<open>DELETE /api/experiments/[id]\<close>\<close>

definition DELETE :: "string \<Rightarrow> world \<Rightarrow> response \<times> world" where
  "DELETE params_id w =
     (case parseInt params_id of
        None \<Rightarrow> (NextResponse (ErrorJson ''Experiment not found'') 404, w)
      | Some i \<Rightarrow>
          (case getExperimentDetails i w of
             None \<Rightarrow> (NextResponse (ErrorJson ''Experiment not found'') 404, w)
           | Some experiment \<Rightarrow>
               if status experiment = ''running''
               then (NextResponse (ErrorJson ''Cannot delete a running experiment'') 400, w)
               else (NextResponse SuccessJson 200, deleteExperiment i w)))"

text \<open>\<^verbatim>\<open>POST /api/experiments/[id]/run\<close>\<close>

definition POST_run :: "string \<Rightarrow> world \<Rightarrow> response \<times> world" where
  "POST_run params_id w =
     (case parseInt params_id of
        None \<Rightarrow> (NextResponse (ErrorJson ''Experiment not found'') 404, w)
      | Some i \<Rightarrow>
          (case getExperimentDetails i w of
             None \<Rightarrow> (NextResponse (ErrorJson ''Experiment not found'') 404, w)
           | Some experiment \<Rightarrow>
               if status experiment = ''running'' \<or> status experiment = ''queued''
               then (NextResponse (ErrorJson ''Experiment is already running or queued'') 400,
                     w)
               else (NextResponse SuccessJson 200, queueExperiment i w)))"

text \<open>
  \<^verbatim>\<open>formSchema\<close> of the experiment form, on values already coerced to numbers: the only
  place where the bounds and the enumerations of the configuration are declared, and
  where four of the numbers are required to be integers (\<^verbatim>\<open>.int()\<close>). The form does not
  submit values the schema rejects.
\<close>

definition isInteger :: "real \<Rightarrow> bool" where
  "isInteger x \<longleftrightarrow> real_of_int \<lfloor>x\<rfloor> = x"

definition formSchema :: "data \<Rightarrow> bool" where
  "formSchema d \<longleftrightarrow>
     (case data.name d of None \<Rightarrow> False | Some n \<Rightarrow> 3 \<le> length n) \<and>
     (case data.learning_rate d of None \<Rightarrow> False | Some x \<Rightarrow> 0.0001 \<le> x \<and> x \<le> 1) \<and>
     (case data.batch_size d of None \<Rightarrow> False | Some x \<Rightarrow> isInteger x \<and> 8 \<le> x \<and> x \<le> 512) \<and>
     (case data.epochs d of None \<Rightarrow> False | Some x \<Rightarrow> isInteger x \<and> 1 \<le> x \<and> x \<le> 50) \<and>
     (case data.optimizer d of None \<Rightarrow> False
      | Some x \<Rightarrow> x \<in> set [''sgd'', ''adam'', ''adadelta'']) \<and>
     (case data.model_type d of None \<Rightarrow> False | Some x \<Rightarrow> x \<in> set [''simple'', ''complex'']) \<and>
     (case data.hidden_layers d of None \<Rightarrow> False | Some x \<Rightarrow> isInteger x \<and> 1 \<le> x \<and> x \<le> 5) \<and>
     (case data.neurons_per_layer d of None \<Rightarrow> False
      | Some x \<Rightarrow> isInteger x \<and> 32 \<le> x \<and> x \<le> 512)"

subsection \<open>The metrics simulator of the specification\<close>

text \<open>
  The four curves as the specification writes them (section 4.3), with the four uniform
  draws as arguments. The runner does not call such a function; it computes the metrics
  inline, and the two are compared below.
\<close>

definition simulated_metrics :: "int \<Rightarrow> real \<Rightarrow> real \<Rightarrow> real \<Rightarrow> real \<Rightarrow> ExperimentHistory" where
  "simulated_metrics e U1 U2 U3 U4 =
     \<lparr>epoch = e,
      train_loss = 0.5 * exp (- 0.1 * real_of_int e) + 0.1 * U1,
      val_loss = 0.6 * exp (- 0.1 * real_of_int e) + 0.15 * U2,
      train_acc = 0.9 - 0.5 * exp (- 0.2 * real_of_int e) + 0.05 * U3,
      val_acc = 0.85 - 0.5 * exp (- 0.2 * real_of_int e) + 0.05 * U4\<rparr>"

text \<open>
  The entry of epoch \<open>e\<close> in a run that found \<open>p\<close> calls of \<^verbatim>\<open>Math.random()\<close> already
  made: epoch \<open>e\<close> takes the draws \<open>p + 4 (e - 1)\<close> to \<open>p + 4 (e - 1) + 3\<close>.
\<close>

definition entry :: "(nat \<Rightarrow> real) \<Rightarrow> nat \<Rightarrow> int \<Rightarrow> ExperimentHistory" where
  "entry rnd p e =
     (let k = p + 4 * nat (e - 1)
      in simulated_metrics e (rnd k) (rnd (k + 1)) (rnd (k + 2)) (rnd (k + 3)))"

subsection \<open>The states of a run\<close>

text \<open>The row of an experiment, and its history rows in insertion order.\<close>

definition row_of :: "int \<Rightarrow> world \<Rightarrow> experiments_row option" where
  "row_of i w = find (\<lambda>r. id' r = i) (experiments w)"

definition history_rows :: "int \<Rightarrow> world \<Rightarrow> ExperimentHistory list" where
  "history_rows i w =
     map ExperimentHistory.truncate (filter (\<lambda>h. experiment_id h = i) (experiment_history w))"

text \<open>
  \<open>progress rnd i n p k c rc w\<close>: in world \<open>w\<close> experiment \<open>i\<close> has \<^verbatim>\<open>epochs\<close> of integer
  part \<open>n\<close> (the number of passes of the loop \<^verbatim>\<open>for (let epoch = 1; epoch <= epochs; epoch++)\<close>
  when \<open>n\<close> is positive) and \<open>current_epoch = c\<close>, its history is the entries of epochs
  \<open>1..k\<close>, and \<open>rc\<close> calls of \<^verbatim>\<open>Math.random()\<close> have been made.
\<close>

definition progress ::
    "(nat \<Rightarrow> real) \<Rightarrow> int \<Rightarrow> int \<Rightarrow> nat \<Rightarrow> int \<Rightarrow> int \<Rightarrow> nat \<Rightarrow> world \<Rightarrow> bool" where
  "progress rnd i n p k c rc w \<longleftrightarrow>
     (case row_of i w of None \<Rightarrow> False | Some r \<Rightarrow> \<lfloor>epochs r\<rfloor> = n \<and> current_epoch r = c) \<and>
     history_rows i w = map (entry rnd p) [1..k] \<and>
     random_calls w = rc"

definition status_is :: "int \<Rightarrow> string \<Rightarrow> world \<Rightarrow> bool" where
  "status_is i s w = (case row_of i w of None \<Rightarrow> False | Some r \<Rightarrow> status r = s)"

definition results_are :: "int \<Rightarrow> ExperimentHistory \<Rightarrow> world \<Rightarrow> bool" where
  "results_are i h w =
     (case row_of i w of
        None \<Rightarrow> False
      | Some r \<Rightarrow> accuracy r = Some (val_acc h) \<and> loss r = Some (val_loss h) \<and>
                  duration r \<noteq> None)"

text \<open>
  What holds at each point of a run of experiment \<open>i\<close> with \<open>n\<close> the integer part of
  \<^verbatim>\<open>epochs\<close> that started
  with an empty history, \<open>current_epoch = 0\<close> and \<open>p\<close> random calls made, as
  \<^verbatim>\<open>queueExperiment\<close> leaves the experiment.
\<close>

fun run_inv :: "(nat \<Rightarrow> real) \<Rightarrow> int \<Rightarrow> int \<Rightarrow> nat \<Rightarrow> runner \<Rightarrow> world \<Rightarrow> bool" where
  "run_inv rnd i n p (Called j) w \<longleftrightarrow> j = i \<and> progress rnd i n p 0 0 p w"
| "run_inv rnd i n p (UpdateRunning j x) w \<longleftrightarrow>
     j = i \<and> \<lfloor>epochs x\<rfloor> = n \<and> progress rnd i n p 0 0 p w"
| "run_inv rnd i n p (UpdateEpoch j x startTime e) w \<longleftrightarrow>
     j = i \<and> \<lfloor>epochs x\<rfloor> = n \<and> 1 \<le> e \<and> e \<le> n \<and> status_is i ''running'' w \<and>
     progress rnd i n p (e - 1) (e - 1) (p + 4 * nat (e - 1)) w"
| "run_inv rnd i n p (Sleeping j x startTime e) w \<longleftrightarrow>
     j = i \<and> \<lfloor>epochs x\<rfloor> = n \<and> 1 \<le> e \<and> e \<le> n \<and> status_is i ''running'' w \<and>
     progress rnd i n p (e - 1) e (p + 4 * nat (e - 1)) w"
| "run_inv rnd i n p (InsertHistory j x startTime e trainLoss valLoss trainAcc valAcc) w \<longleftrightarrow>
     j = i \<and> \<lfloor>epochs x\<rfloor> = n \<and> 1 \<le> e \<and> e \<le> n \<and> status_is i ''running'' w \<and>
     progress rnd i n p (e - 1) e (p + 4 * nat e) w \<and>
     \<lparr>epoch = e, train_loss = trainLoss, val_loss = valLoss, train_acc = trainAcc,
      val_acc = valAcc\<rparr> = entry rnd p e"
| "run_inv rnd i n p (SelectLast j d) w \<longleftrightarrow>
     j = i \<and> status_is i ''running'' w \<and>
     progress rnd i n p (max 0 n) (max 0 n) (p + 4 * nat n) w"
| "run_inv rnd i n p (UpdateCompleted j d lastEpoch) w \<longleftrightarrow>
     j = i \<and> 1 \<le> n \<and> lastEpoch = entry rnd p n \<and> status_is i ''running'' w \<and>
     progress rnd i n p n n (p + 4 * nat n) w"
| "run_inv rnd i n p (UpdateFailed j) w \<longleftrightarrow>
     j = i \<and> n \<le> 0 \<and> status_is i ''running'' w \<and> progress rnd i n p 0 0 p w"
| "run_inv rnd i n p Returned w \<longleftrightarrow>
     progress rnd i n p (max 0 n) (max 0 n) (p + 4 * nat n) w \<and>
     (if 1 \<le> n then status_is i ''completed'' w \<and> results_are i (entry rnd p n) w
      else status_is i ''failed'' w)"

text \<open>Worked example: the configuration of the scenario in the specification, with two epochs.\<close>

definition example_config :: data where
  "example_config =
     \<lparr>data.name = Some ''Experiment-1'', data.learning_rate = Some 0.01,
      data.batch_size = Some 64, data.epochs = Some 2, data.optimizer = Some ''adam'',
      data.model_type = Some ''simple'', data.hidden_layers = Some 2,
      data.neurons_per_layer = Some 128\<rparr>"

definition example_queued :: world where
  "example_queued = snd (POST (Some example_config) empty_world)"

definition zero_draws :: "nat \<Rightarrow> real" where
  "zero_draws k = 0"

subsection \<open>Properties of a create request\<close>

text \<open>
  A required field is missing for the presence check of \<^verbatim>\<open>POST\<close> when it is absent or
  holds a falsy value: the empty string or zero.
\<close>

definition required_missing :: "data \<Rightarrow> bool" where
  "required_missing d \<longleftrightarrow>
     data.name d = None \<or> data.name d = Some [] \<or>
     data.learning_rate d = None \<or> data.learning_rate d = Some 0 \<or>
     data.batch_size d = None \<or> data.batch_size d = Some 0 \<or>
     data.epochs d = None \<or> data.epochs d = Some 0 \<or>
     data.optimizer d = None \<or> data.optimizer d = Some []"

text \<open>All eight inserted columns are given.\<close>

definition all_present :: "data \<Rightarrow> bool" where
  "all_present d \<longleftrightarrow>
     data.name d \<noteq> None \<and> data.learning_rate d \<noteq> None \<and> data.batch_size d \<noteq> None \<and>
     data.epochs d \<noteq> None \<and> data.optimizer d \<noteq> None \<and> data.model_type d \<noteq> None \<and>
     data.hidden_layers d \<noteq> None \<and> data.neurons_per_layer d \<noteq> None"

text \<open>The configuration tuple that \<^verbatim>\<open>findSimilarExperiment\<close> compares; the name is not part of it.\<close>

definition config_tuple ::
    "data \<Rightarrow> real option \<times> real option \<times> real option \<times> string option \<times> string option \<times>
            real option \<times> real option" where
  "config_tuple d =
     (data.learning_rate d, data.batch_size d, data.epochs d, data.optimizer d,
      data.model_type d, data.hidden_layers d, data.neurons_per_layer d)"

text \<open>The row \<^verbatim>\<open>createExperiment\<close> inserts for a body with all eight fields present.\<close>

definition new_row :: "data \<Rightarrow> world \<Rightarrow> experiments_row" where
  "new_row d w =
     \<lparr>id' = next_rowid (experiments_seq w) (map id' (experiments w)),
      name = the (data.name d), learning_rate = the (data.learning_rate d),
      batch_size = the (data.batch_size d), epochs = the (data.epochs d),
      optimizer = the (data.optimizer d), model_type = the (data.model_type d),
      hidden_layers = the (data.hidden_layers d),
      neurons_per_layer = the (data.neurons_per_layer d), status = ''not_started'',
      created_at = now w div 1000, accuracy = None, loss = None, duration = None,
      current_epoch = 0\<rparr>"

text \<open>
  Further examples: a zero learning rate, a body without the three architecture fields,
  and an epoch count beyond the bound of the form.
\<close>

definition example_zero_rate :: data where
  "example_zero_rate = example_config\<lparr>data.learning_rate := Some 0\<rparr>"

definition example_no_architecture :: data where
  "example_no_architecture =
     example_config\<lparr>data.model_type := None, data.hidden_layers := None,
                    data.neurons_per_layer := None\<rparr>"

definition example_hundred_epochs :: data where
  "example_hundred_epochs = example_config\<lparr>data.epochs := Some 100\<rparr>"

text \<open>
  The same configuration under an empty name and under another name, and the example
  experiment in the middle of its run (suspended before the second update of
  \<^verbatim>\<open>current_epoch\<close>) and after it.
\<close>

definition example_unnamed :: data where
  "example_unnamed = example_config\<lparr>data.name := Some []\<rparr>"

definition example_renamed :: data where
  "example_renamed = example_config\<lparr>data.name := Some ''Experiment-2''\<rparr>"

definition example_running :: world where
  "example_running = snd (run zero_draws (Called 1) example_queued ! 5)"

definition example_completed :: world where
  "example_completed = runExperiment zero_draws 1 example_queued"

text \<open>A stream of draws in which the \<open>k\<close>-th call can be told from the others.\<close>

definition example_draws :: "nat \<Rightarrow> real" where
  "example_draws k = real k / 10"

subsection \<open>The statements of a run\<close>

text \<open>
  The statement a suspended runner executes next, named after what it does, and the
  statements of a whole run in the order of their execution. \<open>Sleep e\<close> is the delay of
  epoch \<open>e\<close>; the metrics of the epoch are computed between \<open>Sleep e\<close> and
  \<open>Insert_history e\<close>.
\<close>

datatype statement =
    Get_details
  | Set_running
  | Set_current_epoch int
  | Sleep int
  | Insert_history int
  | Select_last
  | Set_completed
  | Set_failed
  | Return

fun statement_of :: "runner \<Rightarrow> statement" where
  "statement_of (Called i) = Get_details"
| "statement_of (UpdateRunning i experiment) = Set_running"
| "statement_of (UpdateEpoch i experiment startTime e) = Set_current_epoch e"
| "statement_of (Sleeping i experiment startTime e) = Sleep e"
| "statement_of (InsertHistory i experiment startTime e trainLoss valLoss trainAcc valAcc) =
     Insert_history e"
| "statement_of (SelectLast i d) = Select_last"
| "statement_of (UpdateCompleted i d lastEpoch) = Set_completed"
| "statement_of (UpdateFailed i) = Set_failed"
| "statement_of Returned = Return"

definition statements :: "(nat \<Rightarrow> real) \<Rightarrow> runner \<Rightarrow> world \<Rightarrow> statement list" where
  "statements rnd r w = map (\<lambda>c. statement_of (fst c)) (run rnd r w)"

text \<open>The statements of one pass through the loop body, in the order of the source.\<close>

definition epoch_statements :: "int \<Rightarrow> statement list" where
  "epoch_statements e = [Set_current_epoch e, Sleep e, Insert_history e]"

subsection \<open>The server as a transition system\<close>

text \<open>
  The server is its world together with the runners that have been called and have not
  returned. Its states are those reached from the empty store by request handlers,
  by the passing of time, by a pending timer calling \<^verbatim>\<open>runExperiment\<close>, and by a
  suspended runner taking its next step. A handler is one transition: the statements of
  two handlers do not interleave. This is an assumption of the transition system and not
  a property of the source, where a handler gives control back at each of its \<^verbatim>\<open>await\<close>s;
  in particular no state of this system has two runners at work on one experiment,
  which two \<^verbatim>\<open>POST /api/experiments/[id]/run\<close> requests handled at the same time can
  bring about (section ``Runs that overlap''). The runners do interleave, with the
  handlers and with each other, at every \<^verbatim>\<open>await\<close>. A pending timer may fire at any
  moment, which allows more than the clock would.
\<close>

record server =
  world_of :: world
  runners :: "runner list"

inductive reachable :: "(nat \<Rightarrow> real) \<Rightarrow> server \<Rightarrow> bool" for rnd :: "nat \<Rightarrow> real" where
  start: "reachable rnd \<lparr>world_of = empty_world, runners = []\<rparr>"
| create: "reachable rnd s \<Longrightarrow> reachable rnd (s\<lparr>world_of := snd (POST body (world_of s))\<rparr>)"
| poll: "reachable rnd s \<Longrightarrow> reachable rnd (s\<lparr>world_of := snd (GET params_id (world_of s))\<rparr>)"
| delete:
    "reachable rnd s \<Longrightarrow> reachable rnd (s\<lparr>world_of := snd (DELETE params_id (world_of s))\<rparr>)"
| run_again:
    "reachable rnd s \<Longrightarrow> reachable rnd (s\<lparr>world_of := snd (POST_run params_id (world_of s))\<rparr>)"
| tick:
    "reachable rnd s \<Longrightarrow>
     reachable rnd (s\<lparr>world_of := (world_of s)\<lparr>now := now (world_of s) + d\<rparr>\<rparr>)"
| timer:
    "reachable rnd s \<Longrightarrow> k < length (timers (world_of s)) \<Longrightarrow>
     reachable rnd
       (s\<lparr>world_of := (world_of s)\<lparr>timers := take k (timers (world_of s)) @
                                              drop (Suc k) (timers (world_of s))\<rparr>,
          runners := runners s @ [Called (snd (timers (world_of s) ! k))]\<rparr>)"
| resume:
    "reachable rnd s \<Longrightarrow> k < length (runners s) \<Longrightarrow>
     reachable rnd
       (s\<lparr>world_of := snd (step rnd (runners s ! k) (world_of s)),
          runners := (runners s)[k := fst (step rnd (runners s ! k) (world_of s))]\<rparr>)"


text \<open>
  Invariant of the reachable states. The ids of the rows are distinct and at most the
  sequence counter, and \<^verbatim>\<open>current_epoch\<close> lies between 0 and the larger of 0 and the
  integer part of \<^verbatim>\<open>epochs\<close>. A runner
  holds a snapshot that agrees on \<^verbatim>\<open>epochs\<close> with the row of its id, if the row still
  exists, and its loop variable lies between 1 and \<^verbatim>\<open>epochs\<close> inside the loop body.
\<close>

definition rows_ok :: "world \<Rightarrow> bool" where
  "rows_ok w \<longleftrightarrow>
     distinct (map id' (experiments w)) \<and>
     (\<forall>r \<in> set (experiments w).
        id' r \<le> experiments_seq w \<and> 0 \<le> current_epoch r \<and>
        current_epoch r \<le> max 0 \<lfloor>epochs r\<rfloor>)"

definition snapshot_ok :: "world \<Rightarrow> int \<Rightarrow> ExperimentDetails \<Rightarrow> bool" where
  "snapshot_ok w j x \<longleftrightarrow>
     j \<le> experiments_seq w \<and> (\<forall>r \<in> set (experiments w). id' r = j \<longrightarrow> epochs r = epochs x)"

fun runner_ok :: "world \<Rightarrow> runner \<Rightarrow> bool" where
  "runner_ok w (UpdateRunning j x) \<longleftrightarrow> snapshot_ok w j x"
| "runner_ok w (UpdateEpoch j x startTime e) \<longleftrightarrow> snapshot_ok w j x \<and> 1 \<le> e \<and> e \<le> \<lfloor>epochs x\<rfloor>"
| "runner_ok w (Sleeping j x startTime e) \<longleftrightarrow> snapshot_ok w j x \<and> 1 \<le> e \<and> e \<le> \<lfloor>epochs x\<rfloor>"
| "runner_ok w (InsertHistory j x startTime e trainLoss valLoss trainAcc valAcc) \<longleftrightarrow>
     snapshot_ok w j x \<and> 1 \<le> e \<and> e \<le> \<lfloor>epochs x\<rfloor>"
| "runner_ok w r \<longleftrightarrow> True"

definition server_inv :: "server \<Rightarrow> bool" where
  "server_inv s \<longleftrightarrow> rows_ok (world_of s) \<and> (\<forall>q \<in> set (runners s). runner_ok (world_of s) q)"

text \<open>
  \<open>extends w w'\<close>: the counter has not decreased, and every row of \<open>w'\<close> has the id and
  the \<^verbatim>\<open>epochs\<close> of a row of \<open>w\<close> or an id beyond the counter of \<open>w\<close>.
\<close>

definition extends :: "world \<Rightarrow> world \<Rightarrow> bool" where
  "extends w w' \<longleftrightarrow>
     experiments_seq w \<le> experiments_seq w' \<and>
     (\<forall>r' \<in> set (experiments w').
        experiments_seq w < id' r' \<or>
        (\<exists>r \<in> set (experiments w). id' r = id' r' \<and> epochs r = epochs r'))"



subsection \<open>The lifecycle of an experiment in the reachable states\<close>

text \<open>
  The experiment a runner works on, and the number of agents of an experiment: its
  pending timers and its runners that have not returned.
\<close>

fun runner_id :: "runner \<Rightarrow> int option" where
  "runner_id (Called i) = Some i"
| "runner_id (UpdateRunning i x) = Some i"
| "runner_id (UpdateEpoch i x startTime e) = Some i"
| "runner_id (Sleeping i x startTime e) = Some i"
| "runner_id (InsertHistory i x startTime e trainLoss valLoss trainAcc valAcc) = Some i"
| "runner_id (SelectLast i d) = Some i"
| "runner_id (UpdateCompleted i d lastEpoch) = Some i"
| "runner_id (UpdateFailed i) = Some i"
| "runner_id Returned = None"

definition agents :: "int \<Rightarrow> server \<Rightarrow> nat" where
  "agents i s =
     length (filter (\<lambda>t. snd t = i) (timers (world_of s))) +
     length (filter (\<lambda>q. runner_id q = Some i) (runners s))"

text \<open>
  \<open>fresh r H\<close>: the row and the history (in insertion order) of an experiment as
  \<^verbatim>\<open>queueExperiment\<close> leaves them. \<open>at_point r H q\<close>: what the row and the history of the
  experiment of runner \<open>q\<close> are while \<open>q\<close> is suspended. \<open>settled r H\<close>: the row and the
  history of an experiment whose run is over.
\<close>

definition fresh :: "experiments_row \<Rightarrow> ExperimentHistory list \<Rightarrow> bool" where
  "fresh r H \<longleftrightarrow> status r = ''queued'' \<and> H = [] \<and> current_epoch r = 0"

fun at_point :: "experiments_row \<Rightarrow> ExperimentHistory list \<Rightarrow> runner \<Rightarrow> bool" where
  "at_point r H (Called j) \<longleftrightarrow> fresh r H"
| "at_point r H (UpdateRunning j x) \<longleftrightarrow> fresh r H \<and> epochs x = epochs r"
| "at_point r H (UpdateEpoch j x startTime e) \<longleftrightarrow>
     status r = ''running'' \<and> epochs x = epochs r \<and> 1 \<le> e \<and> e \<le> \<lfloor>epochs r\<rfloor> \<and>
     map epoch H = [1..e - 1] \<and> current_epoch r = e - 1"
| "at_point r H (Sleeping j x startTime e) \<longleftrightarrow>
     status r = ''running'' \<and> epochs x = epochs r \<and> 1 \<le> e \<and> e \<le> \<lfloor>epochs r\<rfloor> \<and>
     map epoch H = [1..e - 1] \<and> current_epoch r = e"
| "at_point r H (InsertHistory j x startTime e trainLoss valLoss trainAcc valAcc) \<longleftrightarrow>
     status r = ''running'' \<and> epochs x = epochs r \<and> 1 \<le> e \<and> e \<le> \<lfloor>epochs r\<rfloor> \<and>
     map epoch H = [1..e - 1] \<and> current_epoch r = e"
| "at_point r H (SelectLast j d) \<longleftrightarrow>
     status r = ''running'' \<and> map epoch H = [1..\<lfloor>epochs r\<rfloor>] \<and>
     current_epoch r = max 0 \<lfloor>epochs r\<rfloor>"
| "at_point r H (UpdateCompleted j d lastEpoch) \<longleftrightarrow>
     status r = ''running'' \<and> H \<noteq> [] \<and> map epoch H = [1..\<lfloor>epochs r\<rfloor>] \<and>
     lastEpoch = last H \<and> current_epoch r = \<lfloor>epochs r\<rfloor>"
| "at_point r H (UpdateFailed j) \<longleftrightarrow> status r = ''running''"
| "at_point r H Returned \<longleftrightarrow> True"

definition settled :: "experiments_row \<Rightarrow> ExperimentHistory list \<Rightarrow> bool" where
  "settled r H \<longleftrightarrow>
     status r = ''failed'' \<or>
     status r = ''completed'' \<and> H \<noteq> [] \<and> map epoch H = [1..\<lfloor>epochs r\<rfloor>] \<and>
     accuracy r = Some (val_acc (last H)) \<and> loss r = Some (val_loss (last H)) \<and>
     duration r \<noteq> None"

text \<open>
  Invariant of the reachable states, for every row: a pending timer of the experiment
  finds it fresh, a runner of the experiment finds it as its point of suspension says, an
  experiment without agents is settled, and no experiment has two agents. Every id in a
  history row, a timer or a runner has been handed out before.
\<close>

definition row_inv :: "server \<Rightarrow> experiments_row \<Rightarrow> bool" where
  "row_inv s r \<longleftrightarrow>
     (\<forall>t \<in> set (timers (world_of s)).
        snd t = id' r \<longrightarrow> fresh r (history_rows (id' r) (world_of s))) \<and>
     (\<forall>q \<in> set (runners s).
        runner_id q = Some (id' r) \<longrightarrow> at_point r (history_rows (id' r) (world_of s)) q) \<and>
     (agents (id' r) s = 0 \<longrightarrow> settled r (history_rows (id' r) (world_of s))) \<and>
     agents (id' r) s \<le> 1"

definition ids_used :: "server \<Rightarrow> bool" where
  "ids_used s \<longleftrightarrow>
     (\<forall>h \<in> set (experiment_history (world_of s)).
        experiment_id h \<le> experiments_seq (world_of s)) \<and>
     (\<forall>t \<in> set (timers (world_of s)). snd t \<le> experiments_seq (world_of s)) \<and>
     (\<forall>q \<in> set (runners s). \<forall>i. runner_id q = Some i \<longrightarrow> i \<le> experiments_seq (world_of s))"

definition lifecycle_inv :: "server \<Rightarrow> bool" where
  "lifecycle_inv s \<longleftrightarrow> ids_used s \<and> (\<forall>r \<in> set (experiments (world_of s)). row_inv s r)"


subsection \<open>What follows a create request\<close>

text \<open>
  \<open>later rnd i s s'\<close>: the server has gone from state \<open>s\<close> to state \<open>s'\<close> by the
  transitions of \<open>reachable\<close>, in any number and order, except that no \<^verbatim>\<open>DELETE\<close> request
  for experiment \<open>i\<close> was answered with success. \<open>first_similar d i w\<close>:
  \<^verbatim>\<open>findSimilarExperiment\<close> finds experiment \<open>i\<close> for the body \<open>d\<close> in world \<open>w\<close>.
\<close>

inductive later :: "(nat \<Rightarrow> real) \<Rightarrow> int \<Rightarrow> server \<Rightarrow> server \<Rightarrow> bool"
  for rnd :: "nat \<Rightarrow> real" and i :: int and s :: server where
  at_once: "later rnd i s s"
| create: "later rnd i s s' \<Longrightarrow> later rnd i s (s'\<lparr>world_of := snd (POST body (world_of s'))\<rparr>)"
| poll: "later rnd i s s' \<Longrightarrow> later rnd i s (s'\<lparr>world_of := snd (GET params_id (world_of s'))\<rparr>)"
| delete:
    "later rnd i s s' \<Longrightarrow>
     parseInt params_id \<noteq> Some i \<or> http_status (fst (DELETE params_id (world_of s'))) \<noteq> 200 \<Longrightarrow>
     later rnd i s (s'\<lparr>world_of := snd (DELETE params_id (world_of s'))\<rparr>)"
| run_again:
    "later rnd i s s' \<Longrightarrow>
     later rnd i s (s'\<lparr>world_of := snd (POST_run params_id (world_of s'))\<rparr>)"
| tick:
    "later rnd i s s' \<Longrightarrow>
     later rnd i s (s'\<lparr>world_of := (world_of s')\<lparr>now := now (world_of s') + d\<rparr>\<rparr>)"
| timer:
    "later rnd i s s' \<Longrightarrow> k < length (timers (world_of s')) \<Longrightarrow>
     later rnd i s
       (s'\<lparr>world_of := (world_of s')\<lparr>timers := take k (timers (world_of s')) @
                                               drop (Suc k) (timers (world_of s'))\<rparr>,
           runners := runners s' @ [Called (snd (timers (world_of s') ! k))]\<rparr>)"
| resume:
    "later rnd i s s' \<Longrightarrow> k < length (runners s') \<Longrightarrow>
     later rnd i s
       (s'\<lparr>world_of := snd (step rnd (runners s' ! k) (world_of s')),
           runners := (runners s')[k := fst (step rnd (runners s' ! k) (world_of s'))]\<rparr>)"

definition first_similar :: "data \<Rightarrow> int \<Rightarrow> world \<Rightarrow> bool" where
  "first_similar d i w \<longleftrightarrow> (\<exists>r. find (similar d) (experiments w) = Some r \<and> id' r = i)"

subsection \<open>A run among other activities\<close>

text \<open>
  \<open>untouched i w w'\<close>: going from world \<open>w\<close> to world \<open>w'\<close> has changed neither the row of
  experiment \<open>i\<close> nor its history rows. \<open>run_among rnd i w0 q w\<close>: the runner of
  experiment \<open>i\<close> called in world \<open>w0\<close> has come to the point \<open>q\<close>, the world being \<open>w\<close>;
  between any two of its steps, before the first and after the last, anything may have
  happened in the world that left experiment \<open>i\<close> untouched: requests handled in whole or
  in part, steps of the runners of other experiments, time passing. Nothing is assumed
  about how the statements of these other activities interleave.
\<close>

definition untouched :: "int \<Rightarrow> world \<Rightarrow> world \<Rightarrow> bool" where
  "untouched i w w' \<longleftrightarrow> row_of i w' = row_of i w \<and> history_rows i w' = history_rows i w"

inductive run_among :: "(nat \<Rightarrow> real) \<Rightarrow> int \<Rightarrow> world \<Rightarrow> runner \<Rightarrow> world \<Rightarrow> bool"
  for rnd :: "nat \<Rightarrow> real" and i :: int and w0 :: world where
  called: "run_among rnd i w0 (Called i) w0"
| own_step:
    "run_among rnd i w0 q w \<Longrightarrow> run_among rnd i w0 (fst (step rnd q w)) (snd (step rnd q w))"
| others: "run_among rnd i w0 q w \<Longrightarrow> untouched i w w' \<Longrightarrow> run_among rnd i w0 q w'"

text \<open>
  A request for two and a half epochs, the world its run leaves, and the world left by a
  run of the first example during which a second experiment was created.
\<close>

definition example_fractional_epochs :: data where
  "example_fractional_epochs = example_config\<lparr>data.epochs := Some 2.5\<rparr>"

definition example_fractional_completed :: world where
  "example_fractional_completed =
     runExperiment zero_draws 1 (snd (POST (Some example_fractional_epochs) empty_world))"

definition example_among :: world where
  "example_among =
     runExperiment zero_draws 1
       (snd (POST (Some example_hundred_epochs) (queueExperiment 1 example_queued)))"

subsection \<open>Runs that overlap\<close>

text \<open>
  The handler of \<^verbatim>\<open>POST /api/experiments/[id]/run\<close> reads the status of the experiment,
  and awaits \<^verbatim>\<open>queueExperiment\<close> if the status allows it. \<open>POST_run_check\<close> is the handler
  up to that point: the response it returns at once, or the id it goes on to queue. Two
  requests for the same experiment can both pass the check before either has queued
  anything; two timers are then pending for the experiment, and two runners work on it.
  \<open>resume_in_turn rnd ks qs w\<close> lets the runners \<open>qs\<close> take one step each in the order
  \<open>ks\<close> of their indices. The example: the first example experiment, completed, is run
  again by two such requests, and the two runners take their steps alternately.
\<close>

definition POST_run_check :: "string \<Rightarrow> world \<Rightarrow> response + int" where
  "POST_run_check params_id w =
     (case parseInt params_id of
        None \<Rightarrow> Inl (NextResponse (ErrorJson ''Experiment not found'') 404)
      | Some i \<Rightarrow>
          (case getExperimentDetails i w of
             None \<Rightarrow> Inl (NextResponse (ErrorJson ''Experiment not found'') 404)
           | Some experiment \<Rightarrow>
               if status experiment = ''running'' \<or> status experiment = ''queued''
               then Inl (NextResponse (ErrorJson ''Experiment is already running or queued'') 400)
               else Inr i))"

fun resume_in_turn ::
    "(nat \<Rightarrow> real) \<Rightarrow> nat list \<Rightarrow> runner list \<Rightarrow> world \<Rightarrow> runner list \<times> world" where
  "resume_in_turn rnd [] qs w = (qs, w)"
| "resume_in_turn rnd (k # ks) qs w =
     resume_in_turn rnd ks (qs[k := fst (step rnd (qs ! k) w)]) (snd (step rnd (qs ! k) w))"

definition example_fine_draws :: "nat \<Rightarrow> real" where
  "example_fine_draws k = real k / 100"

definition example_overlapping :: "runner list \<times> world" where
  "example_overlapping =
     resume_in_turn example_fine_draws
       [0, 1, 0, 1, 0, 1, 0, 1, 0, 1, 0, 1, 0, 1, 0, 1, 0, 1, 0, 1]
       [Called 1, Called 1] (queueExperiment 1 (queueExperiment 1 example_completed))"

section \<open>Basic facts about the store and the runner\<close>

declare run.simps [simp del]

lemma run_Returned: "run rnd Returned w = [(Returned, w)]"
  by (subst run.simps) simp

lemma run_step: "r \<noteq> Returned \<Longrightarrow>
   run rnd r w = (r, w) # run rnd (fst (step rnd r w)) (snd (step rnd r w))"
  by (subst run.simps) simp

lemma loop_test_floor:
  "loop_test i experiment startTime e w =
     (if e \<le> \<lfloor>epochs experiment\<rfloor> then UpdateEpoch i experiment startTime e
      else SelectLast i ((real (now w) - real startTime) / 1000))"
  by (simp add: loop_test_def le_floor_iff)


lemma extend_sel:
  "id' (experiments_row.extend r m) = id' r"
  "epochs (experiments_row.extend r m) = epochs r"
  "status (experiments_row.extend r m) = status r"
  "current_epoch (experiments_row.extend r m) = current_epoch r"
  "accuracy (experiments_row.extend r m) = accuracy r"
  "loss (experiments_row.extend r m) = loss r"
  "duration (experiments_row.extend r m) = duration r"
  "history (experiments_row.extend r (ExperimentDetails.fields h)) = h"
  by (simp_all add: experiments_row.defs ExperimentDetails.defs)

lemma truncate_mk: "ExperimentHistory.truncate \<lparr>epoch = e, train_loss = a, val_loss = b, train_acc = c,
                val_acc = d, history_id = k, experiment_id = i\<rparr> = \<lparr>epoch = e, train_loss = a, val_loss = b, train_acc = c,
                val_acc = d\<rparr>"
  by (simp add: ExperimentHistory.defs)

lemma epoch_truncate: "epoch (ExperimentHistory.truncate h) = epoch h"
  by (simp add: ExperimentHistory.defs)

lemma find_map_update:
  assumes "\<And>r. id' (f r) = id' r"
  shows "find (\<lambda>r. id' r = i) (map (\<lambda>r. if id' r = j then f r else r) rs) =
         map_option (\<lambda>r. if id' r = j then f r else r) (find (\<lambda>r. id' r = i) rs)"
  using assms by (induction rs) auto

lemma row_of_id: "row_of i w = Some r \<Longrightarrow> id' r = i"
  by (auto simp: row_of_def find_Some_iff)

lemma row_of_update:
  assumes "\<And>r. id' (f r) = id' r"
  shows "row_of i (update_experiments j f w) =
         (if j = i then map_option f (row_of i w) else row_of i w)"
proof -
  have "row_of i (update_experiments j f w) =
        map_option (\<lambda>r. if id' r = j then f r else r) (row_of i w)"
    by (simp add: row_of_def update_experiments_def find_map_update [OF assms])
  then show ?thesis
    by (cases "row_of i w") (auto dest: row_of_id)
qed

lemma row_of_clock [simp]:
  "row_of i (w\<lparr>now := t\<rparr>) = row_of i w"
  "row_of i (w\<lparr>random_calls := k\<rparr>) = row_of i w"
  "row_of i (w\<lparr>timers := ts\<rparr>) = row_of i w"
  by (simp_all add: row_of_def)

lemma history_rows_clock [simp]:
  "history_rows i (w\<lparr>now := t\<rparr>) = history_rows i w"
  "history_rows i (w\<lparr>random_calls := k\<rparr>) = history_rows i w"
  "history_rows i (w\<lparr>timers := ts\<rparr>) = history_rows i w"
  by (simp_all add: history_rows_def)

lemma history_rows_update [simp]:
  "history_rows i (update_experiments j f w) = history_rows i w"
  by (simp add: history_rows_def update_experiments_def)

lemma random_calls_update [simp]:
  "random_calls (update_experiments j f w) = random_calls w"
  by (simp add: update_experiments_def)

lemma row_of_insert_history [simp]:
  "row_of i (insert_history j e a b c d w) = row_of i w"
  by (simp add: row_of_def insert_history_def Let_def)

lemma history_rows_insert:
  "history_rows i (insert_history i e a b c d w) =
   history_rows i w @ [\<lparr>epoch = e, train_loss = a, val_loss = b, train_acc = c, val_acc = d\<rparr>]"
  by (simp add: history_rows_def insert_history_def Let_def truncate_mk)

lemma random_calls_insert [simp]:
  "random_calls (insert_history j e a b c d w) = random_calls w"
  by (simp add: insert_history_def Let_def)

lemma epoch_entry [simp]: "epoch (entry rnd p e) = e"
  by (simp add: entry_def simulated_metrics_def Let_def)

lemma select_history_sorted:
  assumes "sorted (map epoch (history_rows i w))"
  shows "select_history i w = history_rows i w"
proof -
  have "map epoch (history_rows i w) =
        map epoch (filter (\<lambda>h. experiment_id h = i) (experiment_history w))"
    by (simp add: history_rows_def epoch_truncate cong: map_cong)
  with assms have "sort_key epoch (filter (\<lambda>h. experiment_id h = i) (experiment_history w)) =
                   filter (\<lambda>h. experiment_id h = i) (experiment_history w)"
    by (simp add: sort_key_id_if_sorted)
  then show ?thesis
    by (simp add: select_history_def history_rows_def)
qed

lemma map_epoch_entries: "map epoch (map (entry rnd p) ks) = ks"
  by (induction ks) simp_all

lemma select_history_entries:
  assumes "history_rows i w = map (entry rnd p) [1..k]"
  shows "select_history i w = map (entry rnd p) [1..k]"
proof -
  have "sorted (map epoch (history_rows i w))"
    by (simp add: assms map_epoch_entries del: map_map)
  then show ?thesis
    using assms by (simp add: select_history_sorted)
qed

lemma getExperimentDetails_row_of:
  "getExperimentDetails i w =
     map_option (\<lambda>r. experiments_row.extend r (ExperimentDetails.fields (select_history i w)))
       (row_of i w)"
  by (simp add: getExperimentDetails_def row_of_def split: option.splits)

lemma insort_key_last:
  fixes g :: "'a \<Rightarrow> int"
  shows "\<forall>y \<in> set ys. g y < g x \<Longrightarrow> insort_key g x ys = ys @ [x]"
  by (induction ys) auto

lemma sort_key_decreasing:
  fixes f :: "'a \<Rightarrow> int"
  assumes "sorted (map f xs)" and "distinct (map f xs)"
  shows "sort_key (\<lambda>x. - f x) xs = rev xs"
  using assms
proof (induction xs)
  case Nil
  then show ?case by simp
next
  case (Cons x xs)
  have "- f y < - f x" if "y \<in> set xs" for y
  proof -
    from Cons.prems that have "f x \<le> f y" "f x \<noteq> f y"
      by auto
    then show ?thesis by simp
  qed
  then have "\<forall>y \<in> set (rev xs). - f y < - f x"
    by simp
  then have "insort_key (\<lambda>x. - f x) x (rev xs) = rev xs @ [x]"
    by (rule insort_key_last)
  with Cons show ?case
    by simp
qed

lemma sorted_history:
  assumes "map epoch (history_rows i w) = [1..n]"
  shows "select_history i w = history_rows i w"
  by (rule select_history_sorted) (simp add: assms)

lemma select_last_sorted:
  assumes "map epoch (history_rows i w) = [1..n]"
  shows "select_last_epoch i w =
         (if history_rows i w = [] then None else Some (last (history_rows i w)))"
proof -
  let ?F = "filter (\<lambda>h. experiment_id h = i) (experiment_history w)"
  have "map epoch ?F = map epoch (history_rows i w)"
    by (simp add: history_rows_def epoch_truncate cong: map_cong)
  with assms have "sorted (map epoch ?F)" "distinct (map epoch ?F)"
    by simp_all
  then have "sort_key (\<lambda>h. - epoch h) ?F = rev ?F"
    by (rule sort_key_decreasing)
  then show ?thesis
    by (cases ?F rule: rev_cases) (simp_all add: select_last_epoch_def history_rows_def)
qed

lemma select_last_entries:
  assumes "history_rows i w = map (entry rnd p) [1..k]"
  shows "select_last_epoch i w = (if 1 \<le> k then Some (entry rnd p k) else None)"
proof -
  have m: "map epoch (history_rows i w) = [1..k]"
    by (simp add: assms map_epoch_entries del: map_map)
  show ?thesis
  proof (cases "1 \<le> k")
    case True
    then have "[1..k] = [1..k - 1] @ [k]"
      by (rule upto_rec2)
    then show ?thesis
      using True by (simp add: select_last_sorted [OF m] assms)
  next
    case False
    then show ?thesis
      by (simp add: select_last_sorted [OF m] assms)
  qed
qed

lemma run_inv_step:
  assumes "run_inv rnd i n p r w"
  shows "run_inv rnd i n p (fst (step rnd r w)) (snd (step rnd r w))"
proof (cases r)
  case (Called j)
  then show ?thesis using assms
    by (auto simp: getExperimentDetails_row_of progress_def extend_sel split: option.splits)
next
  case (UpdateRunning j x)
  then show ?thesis using assms
    by (auto simp: loop_test_def Let_def progress_def status_is_def row_of_update split: option.splits)
next
  case (UpdateEpoch j x st e)
  then show ?thesis using assms
    by (auto simp: progress_def status_is_def row_of_update split: option.splits)
next
  case (Sleeping j x st e)
  then show ?thesis using assms
    by (auto simp: progress_def status_is_def Let_def entry_def simulated_metrics_def nat_diff_distrib split: option.splits)
next
  case (InsertHistory j x st e a b c d)
  define w' where "w' = insert_history i e a b c d w"
  from assms InsertHistory have f: "j = i" "\<lfloor>epochs x\<rfloor> = n" "1 \<le> e" "e \<le> n"
    "status_is i ''running'' w" "progress rnd i n p (e - 1) e (p + 4 * nat e) w"
    "\<lparr>epoch = e, train_loss = a, val_loss = b, train_acc = c, val_acc = d\<rparr> = entry rnd p e"
    by simp_all
  have "[1..e] = [1..e - 1] @ [e]"
    using f(3) by (rule upto_rec2)
  with f(6,7) have "history_rows i w' = map (entry rnd p) [1..e]"
    by (simp add: w'_def progress_def history_rows_insert)
  with f(6) have prog: "progress rnd i n p e e (p + 4 * nat e) w'"
    by (simp add: progress_def w'_def)
  have st: "status_is i ''running'' w'"
    using f(5) by (simp add: status_is_def w'_def)
  have "run_inv rnd i n p (loop_test i x st (e + 1) w') w'"
  proof (cases "e + 1 \<le> n")
    case True
    with f prog st show ?thesis
      by (simp add: loop_test_floor)
  next
    case False
    with f have "e = n" by simp
    with f prog st show ?thesis
      by (simp add: loop_test_floor)
  qed
  with InsertHistory f(1) show ?thesis
    by (simp add: Let_def w'_def)
next
  case (SelectLast j d)
  then show ?thesis using assms
    by (auto simp: progress_def select_last_entries split: option.splits) linarith+
next
  case (UpdateCompleted j d l)
  then show ?thesis using assms
    by (auto simp: progress_def status_is_def results_are_def row_of_update split: option.splits)
next
  case (UpdateFailed j)
  then show ?thesis using assms
    by (auto simp: progress_def status_is_def row_of_update split: option.splits)
next
  case Returned
  then show ?thesis using assms by simp
qed


lemma run_inv_run:
  assumes "run_inv rnd i n p r w" and "c \<in> set (run rnd r w)"
  shows "run_inv rnd i n p (fst c) (snd c)"
  using assms
proof (induction rnd r w rule: run.induct)
  case (1 rnd r w)
  show ?case
  proof (cases "r = Returned")
    case True
    with "1.prems" show ?thesis
      by (simp add: run_Returned)
  next
    case False
    with "1.prems"(2) have "c = (r, w) \<or> c \<in> set (run rnd (fst (step rnd r w)) (snd (step rnd r w)))"
      by (simp add: run_step)
    then show ?thesis
    proof
      assume "c = (r, w)"
      with "1.prems"(1) show ?thesis by simp
    next
      assume "c \<in> set (run rnd (fst (step rnd r w)) (snd (step rnd r w)))"
      with "1.IH" [OF False run_inv_step [OF "1.prems"(1)]] show ?thesis .
    qed
  qed
qed

lemma run_last_Returned: "fst (last (run rnd r w)) = Returned"
proof (induction rnd r w rule: run.induct)
  case (1 rnd r w)
  show ?case
  proof (cases "r = Returned")
    case True
    then show ?thesis by (simp add: run_Returned)
  next
    case False
    have "run rnd (fst (step rnd r w)) (snd (step rnd r w)) \<noteq> []"
      by (subst run.simps) simp
    with False "1.IH" show ?thesis
      by (simp add: run_step)
  qed
qed

lemma run_nonempty: "run rnd r w \<noteq> []"
  by (subst run.simps) simp

lemma run_inv_final:
  assumes "run_inv rnd i n p (Called i) w"
  shows "run_inv rnd i n p Returned (runExperiment rnd i w)"
proof -
  have "last (run rnd (Called i) w) \<in> set (run rnd (Called i) w)"
    by (simp add: run_nonempty)
  from run_inv_run [OF assms this] show ?thesis
    by (simp add: run_last_Returned runExperiment_def)
qed


lemmas store_defs = findSimilarExperiment_def createExperiment_def getExperimentDetails_def
  next_rowid_def queueExperiment_def update_experiments_def delete_history_def
  delete_experiments_def deleteExperiment_def select_history_def select_last_epoch_def
  insert_history_def loop_test_def falsy_string_def falsy_number_def similar_def
  experiments_row.defs ExperimentDetails.defs truncate_mk Let_def

lemma example_queued_eq:
  "example_queued =
     \<lparr>experiments =
        [\<lparr>id' = 1, name = ''Experiment-1'', learning_rate = 0.01, batch_size = 64, epochs = 2,
          optimizer = ''adam'', model_type = ''simple'', hidden_layers = 2,
          neurons_per_layer = 128, status = ''queued'', created_at = 0, accuracy = None,
          loss = None, duration = None, current_epoch = 0\<rparr>],
      experiments_seq = 1, experiment_history = [], experiment_history_seq = 0, now = 0,
      random_calls = 0, timers = [(1000, 1)]\<rparr>"
  by (simp add: example_queued_def example_config_def empty_world_def POST_def store_defs)

lemma fold_max_ge:
  fixes s :: int
  shows "s \<le> fold max ids s" and "x \<in> set ids \<Longrightarrow> x \<le> fold max ids s"
proof -
  have "Max (set (s # ids)) = fold max ids s"
    by (rule Max.set_eq_fold)
  moreover have "s \<le> Max (set (s # ids))"
    by (rule Max_ge) simp_all
  moreover have "x \<le> Max (set (s # ids))" if "x \<in> set ids"
    by (rule Max_ge) (simp_all add: that)
  ultimately show "s \<le> fold max ids s" and "x \<in> set ids \<Longrightarrow> x \<le> fold max ids s"
    by simp_all
qed

lemma next_rowid_fresh: "r \<in> set rs \<Longrightarrow> id' r \<noteq> next_rowid s (map id' rs)"
  using fold_max_ge(2) [of "id' r" "map id' rs" s] by (auto simp: next_rowid_def)

lemma find_append_fresh:
  assumes "\<And>r. r \<in> set rs \<Longrightarrow> \<not> P r" and "P x"
  shows "find P (rs @ [x]) = Some x"
  using assms by (induction rs) auto

subsection \<open>The create handler, case by case\<close>

lemma falsy_iff:
  "falsy_string s \<longleftrightarrow> s = None \<or> s = Some []"
  "falsy_number x \<longleftrightarrow> x = None \<or> x = Some 0"
  by (auto simp: falsy_string_def falsy_number_def split: option.splits)

lemma createExperiment_absent:
  "\<not> all_present d \<Longrightarrow> createExperiment d w = Inl SQLITE_CONSTRAINT"
  by (auto simp: createExperiment_def all_present_def split: option.splits)

lemma createExperiment_present:
  assumes "all_present d"
  shows "createExperiment d w =
     Inr (Some (experiments_row.extend (new_row d w)
                 (ExperimentDetails.fields
                    (select_history (next_rowid (experiments_seq w) (map id' (experiments w))) w))),
          w\<lparr>experiments := experiments w @ [new_row d w],
            experiments_seq := next_rowid (experiments_seq w) (map id' (experiments w))\<rparr>)"
proof -
  let ?k = "next_rowid (experiments_seq w) (map id' (experiments w))"
  let ?w = "w\<lparr>experiments := experiments w @ [new_row d w], experiments_seq := ?k\<rparr>"
  have "find (\<lambda>r. id' r = ?k) (experiments w @ [new_row d w]) = Some (new_row d w)"
    by (rule find_append_fresh) (auto simp: new_row_def dest: next_rowid_fresh)
  then have "getExperimentDetails ?k ?w =
     Some (experiments_row.extend (new_row d w) (ExperimentDetails.fields (select_history ?k w)))"
    by (simp add: getExperimentDetails_def select_history_def)
  with assms show ?thesis
    by (auto simp: createExperiment_def all_present_def new_row_def Let_def)
qed

lemma required_missing_falsy:
  "required_missing d \<longleftrightarrow>
     falsy_string (data.name d) \<or> falsy_number (data.learning_rate d) \<or>
     falsy_number (data.batch_size d) \<or> falsy_number (data.epochs d) \<or>
     falsy_string (data.optimizer d)"
  by (simp add: required_missing_def falsy_iff disj_ac)

lemma POST_missing:
  "required_missing d \<Longrightarrow>
   POST (Some d) w = (NextResponse (ErrorJson ''Missing required fields'') 400, w)"
  using required_missing_falsy [of d] by (simp add: POST_def)

lemma POST_conflict:
  "\<not> required_missing d \<Longrightarrow> find (similar d) (experiments w) = Some r \<Longrightarrow>
   POST (Some d) w =
     (NextResponse (ConflictJson ''Similar experiment already exists'' (id' r)) 409, w)"
  using required_missing_falsy [of d] by (simp add: POST_def findSimilarExperiment_def)

lemma POST_constraint:
  "\<not> required_missing d \<Longrightarrow> find (similar d) (experiments w) = None \<Longrightarrow> \<not> all_present d \<Longrightarrow>
   POST (Some d) w = (NextResponse (ErrorJson ''Failed to create experiment'') 500, w)"
  using required_missing_falsy [of d]
  by (simp add: POST_def findSimilarExperiment_def createExperiment_absent)

lemma POST_created:
  assumes "\<not> required_missing d" and "find (similar d) (experiments w) = None"
    and "all_present d"
  shows "POST (Some d) w =
     (NextResponse
        (ExperimentJson
           (experiments_row.extend (new_row d w)
              (ExperimentDetails.fields
                 (select_history (next_rowid (experiments_seq w) (map id' (experiments w))) w))))
        201,
      queueExperiment (next_rowid (experiments_seq w) (map id' (experiments w)))
        (w\<lparr>experiments := experiments w @ [new_row d w],
           experiments_seq := next_rowid (experiments_seq w) (map id' (experiments w))\<rparr>))"
  using assms required_missing_falsy [of d]
  by (simp add: POST_def findSimilarExperiment_def createExperiment_present extend_sel)
    (simp add: new_row_def)

lemma POST_status_cases:
  "http_status (fst (POST (Some d) w)) =
     (if required_missing d then 400
      else if find (similar d) (experiments w) \<noteq> None then 409
      else if all_present d then 201 else 500)"
  by (auto simp: POST_missing POST_conflict POST_constraint POST_created)

lemma similar_absent: "\<not> all_present d \<Longrightarrow> \<not> required_missing d \<Longrightarrow> \<not> similar d r"
  by (auto simp: all_present_def similar_def required_missing_def)

lemma row_of_delete_history [simp]: "row_of i (delete_history j w) = row_of i w"
  by (simp add: row_of_def delete_history_def)

lemma row_of_queueExperiment:
  "row_of i (queueExperiment j w) =
     (if j = i then map_option (\<lambda>r. r\<lparr>status := ''queued'', current_epoch := 0\<rparr>) (row_of i w)
      else row_of i w)"
  by (simp add: queueExperiment_def Let_def row_of_update)

lemma history_rows_queueExperiment:
  "history_rows i (queueExperiment i w) = []"
  by (simp add: queueExperiment_def Let_def delete_history_def history_rows_def
      update_experiments_def)

lemma row_of_created:
  "row_of (next_rowid (experiments_seq w) (map id' (experiments w)))
     (w\<lparr>experiments := experiments w @ [new_row d w], experiments_seq := k\<rparr>) =
   Some (new_row d w)"
  unfolding row_of_def
  by (simp, rule find_append_fresh) (auto simp: new_row_def dest: next_rowid_fresh)

lemma example_post:
  "POST (Some example_config) empty_world =
     (NextResponse
        (ExperimentJson
           \<lparr>id' = 1, name = ''Experiment-1'', learning_rate = 0.01, batch_size = 64,
            epochs = 2, optimizer = ''adam'', model_type = ''simple'', hidden_layers = 2,
            neurons_per_layer = 128, status = ''not_started'', created_at = 0,
            accuracy = None, loss = None, duration = None, current_epoch = 0, history = []\<rparr>)
        201,
      example_queued)"
  by (simp add: example_queued_eq)
    (simp add: example_config_def empty_world_def POST_def store_defs)

lemma formSchema_not_missing: "formSchema d \<Longrightarrow> \<not> required_missing d \<and> all_present d"
  by (auto simp: formSchema_def required_missing_def all_present_def split: option.splits)

lemma experiments_queue_created:
  "experiments
     (queueExperiment (next_rowid (experiments_seq w) (map id' (experiments w)))
        (w\<lparr>experiments := experiments w @ [new_row d w], experiments_seq := k\<rparr>)) =
   experiments w @ [(new_row d w)\<lparr>status := ''queued'', current_epoch := 0\<rparr>]"
proof -
  have "map (\<lambda>r. if id' r = next_rowid (experiments_seq w) (map id' (experiments w))
                  then r\<lparr>status := ''queued'', current_epoch := 0\<rparr> else r) (experiments w) =
        experiments w"
    by (rule map_idI) (auto dest: next_rowid_fresh)
  then show ?thesis
    by (simp add: queueExperiment_def Let_def delete_history_def update_experiments_def)
      (simp add: new_row_def)
qed

lemma similar_config_tuple:
  "config_tuple d2 = config_tuple d1 \<Longrightarrow> similar d2 r = similar d1 r"
  by (simp add: config_tuple_def similar_def)

lemma required_missing_config_tuple:
  assumes "config_tuple d2 = config_tuple d1" and "\<not> required_missing d1"
  shows "required_missing d2 \<longleftrightarrow> falsy_string (data.name d2)"
  using assms by (auto simp: config_tuple_def required_missing_def falsy_iff)

lemma similar_new_row: "all_present d \<Longrightarrow> similar d (new_row d w)"
  by (auto simp: all_present_def similar_def new_row_def)

lemma similar_queued [simp]:
  "similar d (r\<lparr>status := s, current_epoch := c\<rparr>) = similar d r"
  by (simp add: similar_def)

lemma find_similar_created:
  assumes "find (similar d) (experiments w) = None" and "all_present d"
  shows "find (similar d)
           (experiments w @ [(new_row d w)\<lparr>status := ''queued'', current_epoch := 0\<rparr>]) =
         Some ((new_row d w)\<lparr>status := ''queued'', current_epoch := 0\<rparr>)"
  using assms by (intro find_append_fresh) (auto simp: find_None_iff similar_new_row)

subsection \<open>The example run, evaluated\<close>

lemmas run_eval = runExperiment_def run_step run_Returned store_defs zero_draws_def

lemma example_running_eq:
  "example_running =
     \<lparr>experiments =
        [\<lparr>id' = 1, name = ''Experiment-1'', learning_rate = 1 / 100, batch_size = 64,
          epochs = 2, optimizer = ''adam'', model_type = ''simple'', hidden_layers = 2,
          neurons_per_layer = 128, status = ''running'', created_at = 0, accuracy = None,
          loss = None, duration = None, current_epoch = 1\<rparr>],
      experiments_seq = 1,
      experiment_history =
        [\<lparr>epoch = 1, train_loss = exp (- (1 / 10)) / 2, val_loss = 3 * exp (- (1 / 10)) / 5,
          train_acc = 9 / 10 - exp (- (1 / 5)) / 2, val_acc = 17 / 20 - exp (- (1 / 5)) / 2,
          history_id = 1, experiment_id = 1\<rparr>],
      experiment_history_seq = 1, now = 1000, random_calls = 4, timers = [(1000, 1)]\<rparr>"
  unfolding example_running_def by (simp add: example_queued_eq run_eval)

lemma example_completed_eq:
  "example_completed =
     \<lparr>experiments =
        [\<lparr>id' = 1, name = ''Experiment-1'', learning_rate = 1 / 100, batch_size = 64,
          epochs = 2, optimizer = ''adam'', model_type = ''simple'', hidden_layers = 2,
          neurons_per_layer = 128, status = ''completed'', created_at = 0,
          accuracy = Some (17 / 20 - exp (- (2 / 5)) / 2),
          loss = Some (3 * exp (- (1 / 5)) / 5), duration = Some 2, current_epoch = 2\<rparr>],
      experiments_seq = 1,
      experiment_history =
        [\<lparr>epoch = 1, train_loss = exp (- (1 / 10)) / 2, val_loss = 3 * exp (- (1 / 10)) / 5,
          train_acc = 9 / 10 - exp (- (1 / 5)) / 2, val_acc = 17 / 20 - exp (- (1 / 5)) / 2,
          history_id = 1, experiment_id = 1\<rparr>,
         \<lparr>epoch = 2, train_loss = exp (- (1 / 5)) / 2, val_loss = 3 * exp (- (1 / 5)) / 5,
          train_acc = 9 / 10 - exp (- (2 / 5)) / 2, val_acc = 17 / 20 - exp (- (2 / 5)) / 2,
          history_id = 2, experiment_id = 1\<rparr>],
      experiment_history_seq = 2, now = 2000, random_calls = 8, timers = [(1000, 1)]\<rparr>"
  unfolding example_completed_def by (simp add: example_queued_eq run_eval)

lemma parseInt_1: "parseInt ''1'' = Some 1"
  by (simp add: parseInt_def isWhiteSpace_def isDigit_def digitValue_def mathInt_def Let_def)

subsection \<open>A run that follows \<^verbatim>\<open>queueExperiment\<close>\<close>

lemma random_calls_queueExperiment [simp]:
  "random_calls (queueExperiment i w) = random_calls w"
  by (simp add: queueExperiment_def Let_def delete_history_def)

lemma run_inv_queued:
  assumes "row_of i w = Some r"
  shows "run_inv rnd i \<lfloor>epochs r\<rfloor> (random_calls w) (Called i) (queueExperiment i w)"
  using assms by (simp add: progress_def row_of_queueExperiment history_rows_queueExperiment)


lemma run_inv_enqueued_run:
  assumes "row_of i w = Some r"
  shows "run_inv rnd i \<lfloor>epochs r\<rfloor> (random_calls w) Returned
           (runExperiment rnd i (queueExperiment i w))"
  using run_inv_queued [OF assms] by (rule run_inv_final)

lemma last_entries: "1 \<le> n \<Longrightarrow> last (map f [1..n]) = f n"
  using upto_rec2 [of 1 n] by simp

lemma progress_details:
  assumes "progress rnd i n p k c rc w"
  shows "\<exists>x. getExperimentDetails i w = Some x \<and> \<lfloor>epochs x\<rfloor> = n \<and> current_epoch x = c \<and>
             history x = map (entry rnd p) [1..k] \<and>
             (\<forall>r. row_of i w = Some r \<longrightarrow> status x = status r \<and> accuracy x = accuracy r \<and>
                  loss x = loss r \<and> duration x = duration r)"
proof -
  from assms obtain r where r: "row_of i w = Some r" "\<lfloor>epochs r\<rfloor> = n" "current_epoch r = c"
    and h: "history_rows i w = map (entry rnd p) [1..k]"
    by (auto simp: progress_def split: option.splits)
  from h have "select_history i w = map (entry rnd p) [1..k]"
    by (rule select_history_entries)
  with r show ?thesis
    by (simp add: getExperimentDetails_row_of extend_sel)
qed

lemma queueExperiment_twice_example:
  "queueExperiment 1 example_queued = example_queued\<lparr>timers := [(1000, 1), (1000, 1)]\<rparr>"
  by (simp add: example_queued_eq store_defs)

subsection \<open>The order of the statements\<close>

lemma statements_step:
  "r \<noteq> Returned \<Longrightarrow>
   statements rnd r w =
     statement_of r # statements rnd (fst (step rnd r w)) (snd (step rnd r w))"
  by (simp add: statements_def run_step)

lemma statements_Returned: "statements rnd Returned w = [Return]"
  by (simp add: statements_def run_Returned)

lemma run_inv_stepD:
  "run_inv rnd i n p r w \<Longrightarrow> step rnd r w = (r', w') \<Longrightarrow> run_inv rnd i n p r' w'"
  using run_inv_step [of rnd i n p r w] by simp

lemma statements_stepD:
  "r \<noteq> Returned \<Longrightarrow> step rnd r w = (r', w') \<Longrightarrow>
   statements rnd r w = statement_of r # statements rnd r' w'"
  by (simp add: statements_step)

lemma statements_select_last:
  assumes "run_inv rnd i n p (SelectLast i d) w"
  shows "statements rnd (SelectLast i d) w =
         [Select_last, if 1 \<le> n then Set_completed else Set_failed, Return]"
proof -
  from assms have "history_rows i w = map (entry rnd p) [1..max 0 n]"
    by (simp add: progress_def)
  then have "select_last_epoch i w = (if 1 \<le> n then Some (entry rnd p n) else None)"
    by (simp add: select_last_entries max_def)
  then show ?thesis
    by (simp add: statements_step statements_Returned)
qed

lemma statements_epoch:
  assumes "run_inv rnd i n p (UpdateEpoch i x st e) w"
  obtains w' where "run_inv rnd i n p (loop_test i x st (e + 1) w') w'"
    and "statements rnd (UpdateEpoch i x st e) w =
         epoch_statements e @ statements rnd (loop_test i x st (e + 1) w') w'"
proof -
  obtain w1 where s1: "step rnd (UpdateEpoch i x st e) w = (Sleeping i x st e, w1)"
    by simp
  obtain a b c d w2 where
    s2: "step rnd (Sleeping i x st e) w1 = (InsertHistory i x st e a b c d, w2)"
    by (simp add: Let_def)
  obtain w3 where
    s3: "step rnd (InsertHistory i x st e a b c d) w2 = (loop_test i x st (e + 1) w3, w3)"
    by (simp add: Let_def)
  have "run_inv rnd i n p (loop_test i x st (e + 1) w3) w3"
    using assms s1 s2 s3 by (blast intro: run_inv_stepD)
  moreover have "statements rnd (UpdateEpoch i x st e) w =
         epoch_statements e @ statements rnd (loop_test i x st (e + 1) w3) w3"
    by (simp add: statements_stepD [OF _ s1] statements_stepD [OF _ s2]
        statements_stepD [OF _ s3] epoch_statements_def)
  ultimately show thesis
    by (rule that)
qed

lemma statements_loop:
  assumes "run_inv rnd i n p (UpdateEpoch i x st e) w" and "k = nat (n - e)"
  shows "statements rnd (UpdateEpoch i x st e) w =
         concat (map epoch_statements [e..n]) @ [Select_last, Set_completed, Return]"
  using assms
proof (induction k arbitrary: e w)
  case 0
  then have e: "e = n" "1 \<le> n" "\<lfloor>epochs x\<rfloor> = n" by simp_all
  from "0.prems"(1) obtain w' where
    i: "run_inv rnd i n p (loop_test i x st (e + 1) w') w'" and
    s: "statements rnd (UpdateEpoch i x st e) w =
        epoch_statements e @ statements rnd (loop_test i x st (e + 1) w') w'"
    by (rule statements_epoch)
  define d where "d = (real (now w') - real st) / 1000"
  have l: "loop_test i x st (e + 1) w' = SelectLast i d"
    using e by (simp add: loop_test_floor d_def)
  from i have "run_inv rnd i n p (SelectLast i d) w'"
    unfolding l .
  from statements_select_last [OF this] e(2)
  have "statements rnd (SelectLast i d) w' = [Select_last, Set_completed, Return]"
    by simp
  with s l e show ?case
    by simp
next
  case (Suc k)
  then have e: "e + 1 \<le> n" "1 \<le> e" "\<lfloor>epochs x\<rfloor> = n" "k = nat (n - (e + 1))" by simp_all
  from Suc.prems(1) obtain w' where
    i: "run_inv rnd i n p (loop_test i x st (e + 1) w') w'" and
    s: "statements rnd (UpdateEpoch i x st e) w =
        epoch_statements e @ statements rnd (loop_test i x st (e + 1) w') w'"
    by (rule statements_epoch)
  have l: "loop_test i x st (e + 1) w' = UpdateEpoch i x st (e + 1)"
    using e by (simp add: loop_test_floor)
  have "statements rnd (UpdateEpoch i x st (e + 1)) w' =
        concat (map epoch_statements [e + 1..n]) @ [Select_last, Set_completed, Return]"
    using i e(4) unfolding l by (rule Suc.IH)
  moreover have "[e..n] = e # [e + 1..n]"
    using e(1) by (simp add: upto_rec1)
  ultimately show ?case
    using s l by simp
qed

lemma statements_run:
  assumes "run_inv rnd i n p (Called i) w"
  shows "statements rnd (Called i) w =
         [Get_details, Set_running] @ concat (map epoch_statements [1..n]) @
         [Select_last, if 1 \<le> n then Set_completed else Set_failed, Return]"
proof -
  from assms obtain x where x: "getExperimentDetails i w = Some x" "\<lfloor>epochs x\<rfloor> = n"
    by (auto simp: progress_def getExperimentDetails_row_of extend_sel split: option.splits)
  then have s1: "step rnd (Called i) w = (UpdateRunning i x, w)"
    by simp
  obtain w' st where s2: "step rnd (UpdateRunning i x) w = (loop_test i x st 1 w', w')"
    by (simp add: Let_def)
  have i2: "run_inv rnd i n p (loop_test i x st 1 w') w'"
    using assms s1 s2 by (blast intro: run_inv_stepD)
  have s: "statements rnd (Called i) w =
           Get_details # Set_running # statements rnd (loop_test i x st 1 w') w'"
    by (simp add: statements_stepD [OF _ s1] statements_stepD [OF _ s2])
  show ?thesis
  proof (cases "1 \<le> n")
    case True
    then have l: "loop_test i x st 1 w' = UpdateEpoch i x st 1"
      using x(2) by (simp add: loop_test_floor)
    have "statements rnd (UpdateEpoch i x st 1) w' =
          concat (map epoch_statements [1..n]) @ [Select_last, Set_completed, Return]"
      using i2 unfolding l by (rule statements_loop) simp
    with s l True show ?thesis by simp
  next
    case False
    define d where "d = (real (now w') - real st) / 1000"
    have l: "loop_test i x st 1 w' = SelectLast i d"
      using False x(2) by (simp add: loop_test_floor d_def)
    from i2 have "run_inv rnd i n p (SelectLast i d) w'"
      unfolding l .
    from statements_select_last [OF this] False
    have "statements rnd (SelectLast i d) w' = [Select_last, Set_failed, Return]"
      by simp
    with s l False show ?thesis by simp
  qed
qed

lemma run_inv_observed:
  assumes "run_inv rnd i n p r w"
  shows "\<exists>x. getExperimentDetails i w = Some x \<and>
           (case r of
              UpdateEpoch j y st e \<Rightarrow>
                current_epoch x = e - 1 \<and> map epoch (history x) = [1..e - 1]
            | Sleeping j y st e \<Rightarrow>
                current_epoch x = e \<and> map epoch (history x) = [1..e - 1]
            | InsertHistory j y st e a b c d \<Rightarrow>
                current_epoch x = e \<and> map epoch (history x) = [1..e - 1]
            | _ \<Rightarrow> True)"
proof -
  have *: "\<exists>x. getExperimentDetails i w = Some x \<and> current_epoch x = c \<and>
               map epoch (history x) = [1..k]"
    if "progress rnd i n p k c rc w" for k c rc
    using progress_details [OF that] by (auto simp: map_epoch_entries simp del: map_map)
  show ?thesis
  proof (cases r)
    case (UpdateEpoch j y st e)
    with assms * [of "e - 1" "e - 1"] show ?thesis by auto
  next
    case (Sleeping j y st e)
    with assms * [of "e - 1" e] show ?thesis by auto
  next
    case (InsertHistory j y st e a b c d)
    with assms * [of "e - 1" e] show ?thesis by auto
  next
    case (Called j)
    with assms * [of 0 0] show ?thesis by auto
  next
    case (UpdateRunning j y)
    with assms * [of 0 0] show ?thesis by auto
  next
    case (SelectLast j d)
    with assms * [of "max 0 n" "max 0 n"] show ?thesis by auto
  next
    case (UpdateCompleted j d l)
    with assms * [of n n] show ?thesis by auto
  next
    case (UpdateFailed j)
    with assms * [of 0 0] show ?thesis by auto
  next
    case Returned
    with assms * [of "max 0 n" "max 0 n"] show ?thesis by auto
  qed
qed

lemma example_statements:
  "statements zero_draws (Called 1) example_queued =
     [Get_details, Set_running, Set_current_epoch 1, Sleep 1, Insert_history 1,
      Set_current_epoch 2, Sleep 2, Insert_history 2, Select_last, Set_completed, Return]"
  by (simp add: statements_def example_queued_eq run_eval)

lemma example_third:
  "statement_of (fst (run zero_draws (Called 1) example_queued ! 3)) = Sleep 1"
  "map_option current_epoch
     (getExperimentDetails 1 (snd (run zero_draws (Called 1) example_queued ! 3))) = Some 1"
  "map_option history
     (getExperimentDetails 1 (snd (run zero_draws (Called 1) example_queued ! 3))) = Some []"
  by (simp_all add: example_queued_eq run_eval extend_sel)

subsection \<open>The invariant of the reachable states\<close>

lemma extends_refl: "extends w w"
  by (auto simp: extends_def)

lemma snapshot_ok_extends: "snapshot_ok w j x \<Longrightarrow> extends w w' \<Longrightarrow> snapshot_ok w' j x"
  unfolding snapshot_ok_def extends_def by force

lemma runner_ok_extends: "runner_ok w q \<Longrightarrow> extends w w' \<Longrightarrow> runner_ok w' q"
  by (cases q) (auto intro: snapshot_ok_extends)

lemma server_inv_world:
  assumes "server_inv s" and "rows_ok w'" and "extends (world_of s) w'"
  shows "server_inv (s\<lparr>world_of := w'\<rparr>)"
  using assms by (auto simp: server_inv_def intro: runner_ok_extends)

lemma update_extends:
  assumes "\<And>r. id' (f r) = id' r" and "\<And>r. epochs (f r) = epochs r"
  shows "extends w (update_experiments i f w)"
proof -
  let ?g = "\<lambda>r. if id' r = i then f r else r"
  have "\<exists>r \<in> set (experiments w). id' r = id' r' \<and> epochs r = epochs r'"
    if "r' \<in> set (map ?g (experiments w))" for r'
  proof -
    from that obtain x where x: "x \<in> set (experiments w)" "r' = ?g x"
      by auto
    then have "id' x = id' r' \<and> epochs x = epochs r'"
      using assms by simp
    with x(1) show ?thesis by blast
  qed
  then show ?thesis
    unfolding extends_def update_experiments_def by simp
qed

lemma update_rows_ok:
  assumes "rows_ok w" and "\<And>r. id' (f r) = id' r" and "\<And>r. epochs (f r) = epochs r"
    and "\<And>r. r \<in> set (experiments w) \<Longrightarrow> id' r = i \<Longrightarrow>
           0 \<le> current_epoch (f r) \<and> current_epoch (f r) \<le> max 0 \<lfloor>epochs r\<rfloor>"
  shows "rows_ok (update_experiments i f w)"
proof -
  let ?g = "\<lambda>r. if id' r = i then f r else r"
  have e: "experiments (update_experiments i f w) = map ?g (experiments w)"
    "experiments_seq (update_experiments i f w) = experiments_seq w"
    by (simp_all add: update_experiments_def)
  have "id' \<circ> ?g = id'"
    by (rule ext) (simp add: assms(2))
  then have ids: "map id' (map ?g (experiments w)) = map id' (experiments w)"
    by simp
  have g: "id' (?g r) \<le> experiments_seq w \<and> 0 \<le> current_epoch (?g r) \<and>
        current_epoch (?g r) \<le> max 0 \<lfloor>epochs (?g r)\<rfloor>"
    if "r \<in> set (experiments w)" for r
    using that assms unfolding rows_ok_def by auto
  show ?thesis
    unfolding rows_ok_def e
  proof (intro conjI ballI)
    from assms(1) show "distinct (map id' (map ?g (experiments w)))"
      unfolding ids by (simp add: rows_ok_def)
  next
    fix r' assume "r' \<in> set (map ?g (experiments w))"
    then obtain r where r: "r \<in> set (experiments w)" "r' = ?g r"
      by auto
    from g [OF r(1)] show "id' r' \<le> experiments_seq w"
      "0 \<le> current_epoch r'" "current_epoch r' \<le> max 0 \<lfloor>epochs r'\<rfloor>"
      unfolding r(2) by simp_all
  qed
qed

lemma delete_history_extends: "extends w (delete_history i w)"
  by (auto simp: extends_def delete_history_def)

lemma delete_history_rows_ok: "rows_ok w \<Longrightarrow> rows_ok (delete_history i w)"
  by (simp add: rows_ok_def delete_history_def)

lemma delete_experiments_extends: "extends w (delete_experiments i w)"
  by (auto simp: extends_def delete_experiments_def)

lemma delete_experiments_rows_ok: "rows_ok w \<Longrightarrow> rows_ok (delete_experiments i w)"
  by (simp add: rows_ok_def delete_experiments_def distinct_map_filter)

lemma insert_history_extends: "extends w (insert_history i e a b c d w)"
  by (auto simp: extends_def insert_history_def Let_def)

lemma insert_history_rows_ok: "rows_ok w \<Longrightarrow> rows_ok (insert_history i e a b c d w)"
  by (simp add: rows_ok_def insert_history_def Let_def)

lemma extends_trans: "extends w w' \<Longrightarrow> extends w' w'' \<Longrightarrow> extends w w''"
  unfolding extends_def by (fastforce)

lemma timers_extends: "extends w (w\<lparr>timers := ts\<rparr>)" "extends w (w\<lparr>now := t\<rparr>)"
  "extends w (w\<lparr>now := t, random_calls := k\<rparr>)"
  by (auto simp: extends_def)

lemma timers_rows_ok:
  "rows_ok w \<Longrightarrow> rows_ok (w\<lparr>timers := ts\<rparr>)" "rows_ok w \<Longrightarrow> rows_ok (w\<lparr>now := t\<rparr>)"
  "rows_ok w \<Longrightarrow> rows_ok (w\<lparr>now := t, random_calls := k\<rparr>)"
  by (simp_all add: rows_ok_def)

lemma queueExperiment_ok:
  assumes "rows_ok w"
  shows "rows_ok (queueExperiment i w)" and "extends w (queueExperiment i w)"
proof -
  let ?f = "\<lambda>r. r\<lparr>status := ''queued'', current_epoch := 0\<rparr>"
  have 1: "rows_ok (update_experiments i ?f w)"
    using assms by (rule update_rows_ok) simp_all
  have 2: "extends w (update_experiments i ?f w)"
    by (rule update_extends) simp_all
  show "rows_ok (queueExperiment i w)"
    using 1 by (simp add: queueExperiment_def Let_def delete_history_rows_ok timers_rows_ok)
  show "extends w (queueExperiment i w)"
    unfolding queueExperiment_def Let_def
    by (blast intro: extends_trans 2 delete_history_extends timers_extends)
qed

lemma created_ok:
  assumes "rows_ok w"
  shows "rows_ok (w\<lparr>experiments := experiments w @ [new_row d w],
                    experiments_seq := next_rowid (experiments_seq w) (map id' (experiments w))\<rparr>)"
    and "extends w (w\<lparr>experiments := experiments w @ [new_row d w],
                    experiments_seq := next_rowid (experiments_seq w) (map id' (experiments w))\<rparr>)"
proof -
  let ?k = "next_rowid (experiments_seq w) (map id' (experiments w))"
  have k: "experiments_seq w < ?k"
    using fold_max_ge(1) [of "experiments_seq w" "map id' (experiments w)"]
    by (simp add: next_rowid_def)
  have f: "id' r \<noteq> ?k" if "r \<in> set (experiments w)" for r
    using that by (rule next_rowid_fresh)
  have n: "id' (new_row d w) = ?k" "current_epoch (new_row d w) = 0"
    by (simp_all add: new_row_def)
  show "rows_ok (w\<lparr>experiments := experiments w @ [new_row d w], experiments_seq := ?k\<rparr>)"
    using assms k f n unfolding rows_ok_def by (auto simp: image_iff)
  show "extends w (w\<lparr>experiments := experiments w @ [new_row d w], experiments_seq := ?k\<rparr>)"
    using k n unfolding extends_def by auto
qed

lemma POST_ok:
  assumes "rows_ok w"
  shows "rows_ok (snd (POST body w)) \<and> extends w (snd (POST body w))"
proof (cases body)
  case None
  with assms show ?thesis by (simp add: POST_def extends_refl)
next
  case (Some d)
  consider "required_missing d" | r where "\<not> required_missing d" "find (similar d) (experiments w) = Some r"
    | "\<not> required_missing d" "find (similar d) (experiments w) = None" "\<not> all_present d"
    | "\<not> required_missing d" "find (similar d) (experiments w) = None" "all_present d"
    by (cases "find (similar d) (experiments w)") auto
  then show ?thesis
  proof cases
    case 1
    with assms Some show ?thesis by (simp add: POST_missing extends_refl)
  next
    case 2
    with assms Some show ?thesis by (simp add: POST_conflict extends_refl)
  next
    case 3
    with assms Some show ?thesis by (simp add: POST_constraint extends_refl)
  next
    case 4
    let ?k = "next_rowid (experiments_seq w) (map id' (experiments w))"
    let ?w1 = "w\<lparr>experiments := experiments w @ [new_row d w], experiments_seq := ?k\<rparr>"
    from 4 Some have p: "snd (POST body w) = queueExperiment ?k ?w1"
      by (simp add: POST_created)
    from created_ok [OF assms, of d] queueExperiment_ok [of ?w1 ?k]
    show ?thesis unfolding p by (blast intro: extends_trans)
  qed
qed

lemma GET_ok: "snd (GET params_id w) = w"
  by (simp add: GET_def split: option.splits)

lemma DELETE_ok:
  assumes "rows_ok w"
  shows "rows_ok (snd (DELETE params_id w)) \<and> extends w (snd (DELETE params_id w))"
proof -
  have "rows_ok (deleteExperiment i w) \<and> extends w (deleteExperiment i w)" for i
    unfolding deleteExperiment_def using assms
    by (blast intro: extends_trans delete_history_extends delete_experiments_extends
        delete_history_rows_ok delete_experiments_rows_ok)
  with assms show ?thesis
    by (simp add: DELETE_def extends_refl split: option.splits)
qed

lemma POST_run_ok:
  assumes "rows_ok w"
  shows "rows_ok (snd (POST_run params_id w)) \<and> extends w (snd (POST_run params_id w))"
  using assms queueExperiment_ok [OF assms]
  by (simp add: POST_run_def extends_refl split: option.splits)

lemma find_unique_id:
  assumes "distinct (map id' rs)" and "find (\<lambda>r. id' r = j) rs = Some r0"
    and "r \<in> set rs" and "id' r = j"
  shows "r = r0"
proof -
  from assms(2) have "r0 \<in> set rs" "id' r0 = j"
    by (auto simp: find_Some_iff)
  with assms(1,3,4) show ?thesis
    by (auto simp: distinct_map dest: inj_onD)
qed

lemma snapshot_taken:
  assumes "rows_ok w" and "getExperimentDetails j w = Some x"
  shows "snapshot_ok w j x"
proof -
  from assms(2) obtain r0 where r0: "find (\<lambda>r. id' r = j) (experiments w) = Some r0"
    "epochs x = epochs r0"
    by (auto simp: getExperimentDetails_def extend_sel split: option.splits)
  then have "r0 \<in> set (experiments w)" "id' r0 = j"
    by (auto simp: find_Some_iff)
  with assms(1) have "j \<le> experiments_seq w"
    by (auto simp: rows_ok_def)
  moreover have "epochs r = epochs x" if "r \<in> set (experiments w)" "id' r = j" for r
    using find_unique_id [OF _ r0(1) that] assms(1) r0(2) by (simp add: rows_ok_def)
  ultimately show ?thesis
    by (simp add: snapshot_ok_def)
qed

lemma loop_test_ok:
  assumes "snapshot_ok w j x" and "1 \<le> e"
  shows "runner_ok w (loop_test j x st e w')"
  using assms by (simp add: loop_test_floor)

lemma status_update_ok:
  assumes "rows_ok w" and "\<And>r. id' (f r) = id' r" and "\<And>r. epochs (f r) = epochs r"
    and "\<And>r. current_epoch (f r) = current_epoch r"
  shows "rows_ok (update_experiments i f w)"
  using assms(1-3)
proof (rule update_rows_ok)
  fix r assume "r \<in> set (experiments w)" "id' r = i"
  with assms(1,4) show "0 \<le> current_epoch (f r) \<and> current_epoch (f r) \<le> max 0 \<lfloor>epochs r\<rfloor>"
    by (simp add: rows_ok_def)
qed

lemma step_ok:
  assumes "rows_ok w" and "runner_ok w q"
  shows "rows_ok (snd (step rnd q w)) \<and> extends w (snd (step rnd q w)) \<and>
         runner_ok (snd (step rnd q w)) (fst (step rnd q w))"
proof (cases q)
  case (Called j)
  with assms show ?thesis
    by (auto simp: extends_refl snapshot_taken split: option.splits)
next
  case (UpdateRunning j x)
  let ?w = "update_experiments j (\<lambda>r. r\<lparr>status := ''running''\<rparr>) w"
  have 1: "rows_ok ?w"
    using assms(1) by (rule status_update_ok) simp_all
  have 2: "extends w ?w"
    by (rule update_extends) simp_all
  from assms(2) UpdateRunning have "snapshot_ok ?w j x"
    using 2 by (auto intro: snapshot_ok_extends)
  then have "runner_ok ?w (loop_test j x (now ?w) 1 ?w)"
    by (rule loop_test_ok) simp
  with 1 2 UpdateRunning show ?thesis
    by (simp add: Let_def)
next
  case (UpdateEpoch j x st e)
  let ?w = "update_experiments j (\<lambda>r. r\<lparr>current_epoch := e\<rparr>) w"
  from assms(2) UpdateEpoch have q: "snapshot_ok w j x" "1 \<le> e" "e \<le> \<lfloor>epochs x\<rfloor>"
    by simp_all
  have 1: "rows_ok ?w"
    using assms(1)
  proof (rule update_rows_ok)
    fix r assume "r \<in> set (experiments w)" "id' r = j"
    with q show "0 \<le> current_epoch (r\<lparr>current_epoch := e\<rparr>) \<and>
                 current_epoch (r\<lparr>current_epoch := e\<rparr>) \<le> max 0 \<lfloor>epochs r\<rfloor>"
      by (simp add: snapshot_ok_def)
  qed simp_all
  have 2: "extends w ?w"
    by (rule update_extends) simp_all
  from q(1) 2 have "snapshot_ok ?w j x"
    by (rule snapshot_ok_extends)
  with 1 2 q UpdateEpoch show ?thesis
    by simp
next
  case (Sleeping j x st e)
  with assms show ?thesis
    by (auto simp: Let_def timers_rows_ok timers_extends
        intro: snapshot_ok_extends [OF _ timers_extends(3)])
next
  case (InsertHistory j x st e a b c d)
  let ?w = "insert_history j e a b c d w"
  from assms(2) InsertHistory have q: "snapshot_ok w j x" "1 \<le> e"
    by simp_all
  have 1: "rows_ok ?w"
    using assms(1) by (rule insert_history_rows_ok)
  have 2: "extends w ?w"
    by (rule insert_history_extends)
  from q(1) 2 have "snapshot_ok ?w j x"
    by (rule snapshot_ok_extends)
  then have "runner_ok ?w (loop_test j x st (e + 1) ?w)"
    using q(2) by (intro loop_test_ok) simp_all
  with 1 2 InsertHistory show ?thesis
    by (simp add: Let_def)
next
  case (SelectLast j d)
  with assms show ?thesis
    by (auto simp: extends_refl split: option.splits)
next
  case (UpdateCompleted j d l)
  let ?f = "\<lambda>r. r\<lparr>status := ''completed'', accuracy := Some (val_acc l),
                  loss := Some (val_loss l), duration := Some d\<rparr>"
  have "rows_ok (update_experiments j ?f w)"
    using assms(1) by (rule status_update_ok) simp_all
  moreover have "extends w (update_experiments j ?f w)"
    by (rule update_extends) simp_all
  ultimately show ?thesis
    using UpdateCompleted by simp
next
  case (UpdateFailed j)
  let ?f = "\<lambda>r. r\<lparr>status := ''failed''\<rparr>"
  have "rows_ok (update_experiments j ?f w)"
    using assms(1) by (rule status_update_ok) simp_all
  moreover have "extends w (update_experiments j ?f w)"
    by (rule update_extends) simp_all
  ultimately show ?thesis
    using UpdateFailed by simp
next
  case Returned
  with assms show ?thesis
    by (simp add: extends_refl)
qed

lemma reachable_inv: "reachable rnd s \<Longrightarrow> server_inv s"
proof (induction rule: reachable.induct)
  case start
  show ?case
    by (simp add: server_inv_def rows_ok_def empty_world_def)
next
  case (create s body)
  then show ?case
    using POST_ok [of "world_of s" body] by (intro server_inv_world) (auto simp: server_inv_def)
next
  case (poll s params_id)
  then show ?case
    by (simp add: GET_ok)
next
  case (delete s params_id)
  then show ?case
    using DELETE_ok [of "world_of s" params_id]
    by (intro server_inv_world) (auto simp: server_inv_def)
next
  case (run_again s params_id)
  then show ?case
    using POST_run_ok [of "world_of s" params_id]
    by (intro server_inv_world) (auto simp: server_inv_def)
next
  case (tick s d)
  then show ?case
    by (intro server_inv_world) (auto simp: server_inv_def timers_rows_ok timers_extends)
next
  case (timer s k)
  let ?w = "(world_of s)\<lparr>timers := take k (timers (world_of s)) @
                                   drop (Suc k) (timers (world_of s))\<rparr>"
  from timer.IH have "rows_ok ?w" "\<forall>q \<in> set (runners s). runner_ok ?w q"
    by (auto simp: server_inv_def timers_rows_ok intro: runner_ok_extends timers_extends)
  then show ?case
    by (simp add: server_inv_def)
next
  case (resume s k)
  let ?q = "runners s ! k"
  let ?c = "step rnd ?q (world_of s)"
  from resume have q: "rows_ok (world_of s)" "runner_ok (world_of s) ?q"
    by (auto simp: server_inv_def)
  from step_ok [OF q, of rnd] have c: "rows_ok (snd ?c)" "extends (world_of s) (snd ?c)"
    "runner_ok (snd ?c) (fst ?c)"
    by simp_all
  have "runner_ok (snd ?c) r" if "r \<in> set ((runners s)[k := fst ?c])" for r
  proof -
    from that have "r = fst ?c \<or> r \<in> set (runners s)"
      using set_update_subset_insert [of "runners s" k "fst ?c"] by auto
    with c resume.IH show ?thesis
      by (auto simp: server_inv_def intro: runner_ok_extends)
  qed
  with c(1) show ?case
    by (simp add: server_inv_def)
qed

subsection \<open>The values of \<^verbatim>\<open>current_epoch\<close> along a run\<close>












subsection \<open>The lifecycle invariant\<close>

lemma filter_update_length:
  assumes "k < length xs"
  shows "length (filter P (xs[k := y])) + (if P (xs ! k) then 1 else 0) =
         length (filter P xs) + (if P y then 1 else 0)"
  using assms
proof (induction xs arbitrary: k)
  case Nil
  then show ?case by simp
next
  case (Cons x xs)
  then show ?case
    by (cases k) auto
qed

lemma filter_two:
  assumes "j < length xs" and "k < length xs" and "j \<noteq> k" and "P (xs ! j)" and "P (xs ! k)"
  shows "2 \<le> length (filter P xs)"
  using assms
proof (induction xs arbitrary: j k)
  case Nil
  then show ?case by simp
next
  case (Cons x xs)
  show ?case
  proof (cases j)
    case 0
    with Cons.prems obtain k' where k': "k = Suc k'" "k' < length xs" "P (xs ! k')" "P x"
      by (cases k) auto
    then have "xs ! k' \<in> set (filter P xs)"
      by simp
    then have "0 < length (filter P xs)"
      by (rule length_pos_if_in_set)
    with k' show ?thesis by (simp add: Suc_le_eq)
  next
    case (Suc j')
    show ?thesis
    proof (cases k)
      case 0
      with Cons.prems Suc have j': "j' < length xs" "P (xs ! j')" "P x"
        by auto
      then have "xs ! j' \<in> set (filter P xs)"
        by simp
      then have "0 < length (filter P xs)"
        by (rule length_pos_if_in_set)
      with j' show ?thesis by (simp add: Suc_le_eq)
    next
      case (Suc k')
      with Cons.prems \<open>j = Suc j'\<close> have "2 \<le> length (filter P xs)"
        by (intro Cons.IH [of j' k']) auto
      then show ?thesis by simp
    qed
  qed
qed

lemma step_runner_id:
  "runner_id (fst (step rnd q w)) = runner_id q \<or> fst (step rnd q w) = Returned"
  by (cases q) (auto simp: loop_test_def Let_def split: option.splits)

lemma row_of_member:
  assumes "distinct (map id' (experiments w))" and "r \<in> set (experiments w)"
  shows "row_of (id' r) w = Some r"
proof -
  from assms(2) obtain r0 where r0: "find (\<lambda>x. id' x = id' r) (experiments w) = Some r0"
    by (cases "find (\<lambda>x. id' x = id' r) (experiments w)") (auto simp: find_None_iff)
  from find_unique_id [OF assms(1) r0 assms(2)] r0 show ?thesis
    by (simp add: row_of_def)
qed

lemma row_of_in_set: "row_of i w = Some r \<Longrightarrow> r \<in> set (experiments w) \<and> id' r = i"
  by (auto simp: row_of_def find_Some_iff)

lemma history_rows_insert_other:
  "j \<noteq> i \<Longrightarrow> history_rows j (insert_history i e a b c d w) = history_rows j w"
  by (simp add: history_rows_def insert_history_def Let_def)

lemma at_point_step:
  assumes "row_of i w = Some r" and "runner_id q = Some i"
    and "at_point r (history_rows i w) q"
  shows "\<exists>r'. row_of i (snd (step rnd q w)) = Some r' \<and>
           (if fst (step rnd q w) = Returned
            then settled r' (history_rows i (snd (step rnd q w)))
            else at_point r' (history_rows i (snd (step rnd q w))) (fst (step rnd q w)))"
proof (cases q)
  case (Called j)
  with assms show ?thesis
    by (auto simp: getExperimentDetails_row_of extend_sel fresh_def)
next
  case (UpdateRunning j x)
  with assms show ?thesis
    by (auto simp: Let_def loop_test_floor row_of_update fresh_def)
next
  case (UpdateEpoch j x st e)
  with assms show ?thesis
    by (auto simp: row_of_update)
next
  case (Sleeping j x st e)
  with assms show ?thesis
    by (auto simp: Let_def)
next
  case (InsertHistory j x st e a b c d)
  with assms have f: "j = i" "status r = ''running''" "epochs x = epochs r" "1 \<le> e"
    "e \<le> \<lfloor>epochs r\<rfloor>" "map epoch (history_rows i w) = [1..e - 1]" "current_epoch r = e"
    by simp_all
  let ?w = "insert_history i e a b c d w"
  have "[1..e] = [1..e - 1] @ [e]"
    using f(4) by (rule upto_rec2)
  with f(6) have h: "map epoch (history_rows i ?w) = [1..e]"
    by (simp add: history_rows_insert)
  have r: "row_of i ?w = Some r"
    using assms(1) by simp
  have "at_point r (history_rows i ?w) (loop_test i x st (e + 1) ?w)"
  proof (cases "e + 1 \<le> \<lfloor>epochs x\<rfloor>")
    case True
    with f h show ?thesis by (simp add: loop_test_floor)
  next
    case False
    with f have "e = \<lfloor>epochs r\<rfloor>" by simp
    with False f h show ?thesis by (simp add: loop_test_floor)
  qed
  moreover have "loop_test i x st (e + 1) ?w \<noteq> Returned"
    by (simp add: loop_test_floor)
  ultimately show ?thesis
    using InsertHistory f(1) r by (simp add: Let_def)
next
  case (SelectLast j d)
  with assms have f: "j = i" "status r = ''running''"
    "map epoch (history_rows i w) = [1..\<lfloor>epochs r\<rfloor>]" "current_epoch r = max 0 \<lfloor>epochs r\<rfloor>"
    by simp_all
  show ?thesis
  proof (cases "history_rows i w = []")
    case True
    with f assms(1) SelectLast show ?thesis
      by (simp add: select_last_sorted [OF f(3)])
  next
    case False
    with f(3) have "1 \<le> \<lfloor>epochs r\<rfloor>"
      by (cases "1 \<le> \<lfloor>epochs r\<rfloor>") auto
    with False f assms(1) SelectLast show ?thesis
      by (simp add: select_last_sorted [OF f(3)])
  qed
next
  case (UpdateCompleted j d l)
  with assms show ?thesis
    by (auto simp: row_of_update settled_def)
next
  case (UpdateFailed j)
  with assms show ?thesis
    by (auto simp: row_of_update settled_def)
next
  case Returned
  with assms show ?thesis by simp
qed

lemma row_inv_cong:
  assumes "row_inv s r"
    and "filter (\<lambda>t. snd t = id' r) (timers (world_of s')) =
         filter (\<lambda>t. snd t = id' r) (timers (world_of s))"
    and "filter (\<lambda>q. runner_id q = Some (id' r)) (runners s') =
         filter (\<lambda>q. runner_id q = Some (id' r)) (runners s)"
    and "history_rows (id' r) (world_of s') = history_rows (id' r) (world_of s)"
  shows "row_inv s' r"
proof -
  have t: "(\<forall>t \<in> set ts. snd t = i \<longrightarrow> P) \<longleftrightarrow> (\<forall>t \<in> set (filter (\<lambda>t. snd t = i) ts). P)"
    for ts :: "(nat \<times> int) list" and i P
    by fastforce
  have q: "(\<forall>q \<in> set qs. runner_id q = Some i \<longrightarrow> P q) \<longleftrightarrow>
           (\<forall>q \<in> set (filter (\<lambda>q. runner_id q = Some i) qs). P q)"
    for qs i P
    by auto
  from assms(1) show ?thesis
    unfolding row_inv_def agents_def t q assms(2-4) .
qed

lemma step_timers [simp]:
  "timers (snd (step rnd q w)) = timers w"
  "experiments_seq (snd (step rnd q w)) = experiments_seq w"
  by (cases q; simp add: Let_def update_experiments_def insert_history_def split: option.splits)+

lemma step_other_row:
  assumes "runner_id q = Some i" and "j \<noteq> i"
  shows "row_of j (snd (step rnd q w)) = row_of j w"
    and "history_rows j (snd (step rnd q w)) = history_rows j w"
  using assms
  by (cases q; simp add: Let_def row_of_update history_rows_insert_other split: option.splits)+

lemma step_row_absent:
  assumes "row_of j w = None"
  shows "row_of j (snd (step rnd q w)) = None"
  using assms by (cases q) (simp_all add: Let_def row_of_update split: option.splits)

lemma step_history_ids:
  assumes "runner_id q = Some i" and "i \<le> n"
    and "\<forall>h \<in> set (experiment_history w). experiment_id h \<le> n"
  shows "\<forall>h \<in> set (experiment_history (snd (step rnd q w))). experiment_id h \<le> n"
  using assms
  by (cases q) (auto simp: Let_def update_experiments_def insert_history_def split: option.splits)

lemma resume_ids_used:
  assumes "ids_used s" and "k < length (runners s)"
  shows "ids_used (s\<lparr>world_of := snd (step rnd (runners s ! k) (world_of s)),
                     runners := (runners s)[k := fst (step rnd (runners s ! k) (world_of s))]\<rparr>)"
proof -
  let ?q = "runners s ! k"
  let ?c = "step rnd ?q (world_of s)"
  have q: "?q \<in> set (runners s)"
    using assms(2) by simp
  have h: "\<forall>h \<in> set (experiment_history (snd ?c)). experiment_id h \<le> experiments_seq (world_of s)"
  proof (cases "runner_id ?q")
    case None
    then have "?q = Returned" by (cases ?q) simp_all
    with assms(1) show ?thesis by (simp add: ids_used_def)
  next
    case (Some i)
    with assms(1) q have "i \<le> experiments_seq (world_of s)"
      by (auto simp: ids_used_def)
    with Some assms(1) show ?thesis
      by (intro step_history_ids [of ?q i]) (auto simp: ids_used_def)
  qed
  have r: "i \<le> experiments_seq (world_of s)"
    if "q' \<in> set ((runners s)[k := fst ?c])" "runner_id q' = Some i" for q' i
  proof -
    from that(1) have "q' = fst ?c \<or> q' \<in> set (runners s)"
      using set_update_subset_insert [of "runners s" k "fst ?c"] by auto
    then show ?thesis
    proof
      assume "q' = fst ?c"
      with that(2) step_runner_id [of rnd ?q "world_of s"] have "runner_id ?q = Some i"
        by auto
      with assms(1) q show ?thesis by (auto simp: ids_used_def)
    next
      assume "q' \<in> set (runners s)"
      with assms(1) that(2) show ?thesis by (auto simp: ids_used_def)
    qed
  qed
  from assms(1) h r show ?thesis
    by (auto simp: ids_used_def)
qed

lemma filter_update_other:
  "\<not> P (xs ! k) \<Longrightarrow> \<not> P y \<Longrightarrow> filter P (xs[k := y]) = filter P xs"
proof (induction xs arbitrary: k)
  case Nil
  then show ?case by simp
next
  case (Cons x xs)
  then show ?case by (cases k) auto
qed

lemma resume_row_inv:
  assumes "lifecycle_inv s" and "k < length (runners s)"
    and d: "distinct (map id' (experiments (world_of s)))"
    and d': "distinct (map id' (experiments (snd (step rnd (runners s ! k) (world_of s)))))"
    and r': "r' \<in> set (experiments (snd (step rnd (runners s ! k) (world_of s))))"
  shows "row_inv (s\<lparr>world_of := snd (step rnd (runners s ! k) (world_of s)),
                     runners := (runners s)[k := fst (step rnd (runners s ! k) (world_of s))]\<rparr>) r'"
proof (cases "runner_id (runners s ! k)")
  case None
  then have q: "runners s ! k = Returned"
    by (cases "runners s ! k") simp_all
  have "(runners s)[k := Returned] = runners s"
    using q list_update_id [of "runners s" k] by simp
  with assms(1) r' q show ?thesis
    by (simp add: lifecycle_inv_def)
next
  case (Some i)
  let ?w = "world_of s"
  let ?q = "runners s ! k"
  let ?c = "step rnd ?q ?w"
  let ?s = "s\<lparr>world_of := snd ?c, runners := (runners s)[k := fst ?c]\<rparr>"
  have q: "?q \<in> set (runners s)"
    using assms(2) by simp
  have row': "row_of (id' r') (snd ?c) = Some r'"
    using d' r' by (rule row_of_member)
  show ?thesis
  proof (cases "id' r' = i")
    case False
    with step_other_row [OF Some, of "id' r'" rnd ?w] row'
    have o: "row_of (id' r') ?w = Some r'" "history_rows (id' r') (snd ?c) = history_rows (id' r') ?w"
      by simp_all
    then have "r' \<in> set (experiments ?w)"
      by (auto dest: row_of_in_set)
    with assms(1) have inv: "row_inv s r'"
      by (simp add: lifecycle_inv_def)
    have "runner_id (fst ?c) \<noteq> Some (id' r')"
      using step_runner_id [of rnd ?q ?w] Some False by auto
    with Some False have "filter (\<lambda>q. runner_id q = Some (id' r')) ((runners s)[k := fst ?c]) =
          filter (\<lambda>q. runner_id q = Some (id' r')) (runners s)"
      by (intro filter_update_other) simp_all
    with inv o(2) show ?thesis
      by (intro row_inv_cong [of s r' ?s]) simp_all
  next
    case True
    have "row_of i ?w \<noteq> None"
      using step_row_absent [of i ?w rnd ?q] row' True by auto
    then obtain r where r: "row_of i ?w = Some r"
      by auto
    then have rin: "r \<in> set (experiments ?w)" "id' r = i"
      by (auto dest: row_of_in_set)
    with assms(1) have inv: "row_inv s r"
      by (simp add: lifecycle_inv_def)
    let ?P = "\<lambda>q. runner_id q = Some i"
    have "?q \<in> set (filter ?P (runners s))"
      using q Some by simp
    then have "0 < length (filter ?P (runners s))"
      by (rule length_pos_if_in_set)
    then have one: "1 \<le> length (filter ?P (runners s))"
      by (simp add: Suc_le_eq)
    from inv rin(2) have "length (filter (\<lambda>t. snd t = i) (timers ?w)) +
        length (filter ?P (runners s)) \<le> 1"
      by (simp add: row_inv_def agents_def)
    with one have len: "length (filter ?P (runners s)) = 1"
      and "length (filter (\<lambda>t. snd t = i) (timers ?w)) = 0"
      by arith+
    then have not: "filter (\<lambda>t. snd t = i) (timers ?w) = []"
      by simp
    from inv q Some rin(2) have "at_point r (history_rows i ?w) ?q"
      by (auto simp: row_inv_def)
    from at_point_step [OF r Some this, of rnd] row' True
    have step: "if fst ?c = Returned then settled r' (history_rows i (snd ?c))
                else at_point r' (history_rows i (snd ?c)) (fst ?c)"
      by auto
    have len': "length (filter ?P ((runners s)[k := fst ?c])) = (if ?P (fst ?c) then 1 else 0)"
      using filter_update_length [OF assms(2), of ?P "fst ?c"] Some len by simp
    have ret: "fst ?c = Returned" if "\<not> ?P (fst ?c)"
      using step_runner_id [of rnd ?q ?w] Some that by auto
    have others: "q2 = fst ?c"
      if "q2 \<in> set ((runners s)[k := fst ?c])" "?P q2" for q2
    proof -
      from that(1) obtain j where j: "j < length (runners s)" "q2 = (runners s)[k := fst ?c] ! j"
        by (auto simp: in_set_conv_nth)
      show ?thesis
      proof (cases "j = k")
        case True
        with j show ?thesis by simp
      next
        case False
        with j that(2) have "?P (runners s ! j)" by simp
        from filter_two [OF j(1) assms(2) False, of ?P, OF this Some] len show ?thesis
          by simp
      qed
    qed
    have tm: "\<forall>t \<in> set (timers ?w). snd t \<noteq> i"
      using not by (auto simp: filter_empty_conv)
    show ?thesis
      unfolding row_inv_def agents_def True
    proof (intro conjI ballI impI)
      fix t assume "t \<in> set (timers (world_of ?s))" "snd t = i"
      with tm show "fresh r' (history_rows i (world_of ?s))"
        by simp
    next
      fix q2 assume "q2 \<in> set (runners ?s)" "?P q2"
      with others [of q2] have "q2 = fst ?c" "fst ?c \<noteq> Returned"
        by auto
      with step show "at_point r' (history_rows i (world_of ?s)) q2"
        by simp
    next
      assume "length (filter (\<lambda>t. snd t = i) (timers (world_of ?s))) +
              length (filter ?P (runners ?s)) = 0"
      with len' ret have "fst ?c = Returned"
        by (auto split: if_splits)
      with step show "settled r' (history_rows i (world_of ?s))"
        by simp
    next
      show "length (filter (\<lambda>t. snd t = i) (timers (world_of ?s))) +
            length (filter ?P (runners ?s)) \<le> 1"
        using len' not by simp
    qed
  qed
qed

lemma filter_filter_other:
  "j \<noteq> i \<Longrightarrow> filter (\<lambda>h. f h = j) (filter (\<lambda>h. f h \<noteq> i) xs) = filter (\<lambda>h. f h = j) xs"
  by (induction xs) auto

lemma history_rows_delete_other:
  "j \<noteq> i \<Longrightarrow> history_rows j (delete_history i w) = history_rows j w"
  by (simp add: history_rows_def delete_history_def filter_filter_other del: filter_filter)

lemma history_rows_experiments [simp]:
  "history_rows j (w\<lparr>experiments := rs\<rparr>) = history_rows j w"
  "history_rows j (w\<lparr>experiments := rs, experiments_seq := k\<rparr>) = history_rows j w"
  by (simp_all add: history_rows_def)

lemma history_rows_queue_other:
  "j \<noteq> i \<Longrightarrow> history_rows j (queueExperiment i w) = history_rows j w"
  by (simp add: queueExperiment_def Let_def history_rows_delete_other)

lemma timers_queueExperiment:
  "timers (queueExperiment i w) = timers w @ [(now w + 1000, i)]"
  by (simp add: queueExperiment_def Let_def delete_history_def update_experiments_def)

lemma experiments_seq_queueExperiment [simp]:
  "experiments_seq (queueExperiment i w) = experiments_seq w"
  by (simp add: queueExperiment_def Let_def delete_history_def update_experiments_def)

lemma history_queueExperiment_subset:
  "set (experiment_history (queueExperiment i w)) \<subseteq> set (experiment_history w)"
  by (auto simp: queueExperiment_def Let_def delete_history_def update_experiments_def)

lemma queue_row_inv:
  assumes others: "\<And>r. r \<in> set (experiments w0) \<Longrightarrow> id' r \<noteq> i \<Longrightarrow> row_inv (s\<lparr>world_of := w0\<rparr>) r"
    and t: "filter (\<lambda>t. snd t = i) (timers w0) = []"
    and q: "filter (\<lambda>q. runner_id q = Some i) (runners s) = []"
    and d: "distinct (map id' (experiments (queueExperiment i w0)))"
    and r': "r' \<in> set (experiments (queueExperiment i w0))"
  shows "row_inv (s\<lparr>world_of := queueExperiment i w0\<rparr>) r'"
proof -
  have row': "row_of (id' r') (queueExperiment i w0) = Some r'"
    using d r' by (rule row_of_member)
  show ?thesis
  proof (cases "id' r' = i")
    case False
    with row' have "row_of (id' r') w0 = Some r'"
      by (simp add: row_of_queueExperiment)
    then have "r' \<in> set (experiments w0)"
      by (auto dest: row_of_in_set)
    then have inv0: "row_inv (s\<lparr>world_of := w0\<rparr>) r'"
      using False by (rule others)
    from False have ne: "i \<noteq> id' r'"
      by simp
    show ?thesis
      by (rule row_inv_cong [OF inv0])
        (simp_all add: timers_queueExperiment history_rows_queue_other False ne)
  next
    case True
    with row' obtain r where r: "r' = r\<lparr>status := ''queued'', current_epoch := 0\<rparr>"
      by (auto simp: row_of_queueExperiment)
    have f: "fresh r' (history_rows i (queueExperiment i w0))"
      by (simp add: fresh_def r history_rows_queueExperiment)
    show ?thesis
      unfolding row_inv_def agents_def True
      using f t q by (auto simp: timers_queueExperiment filter_empty_conv)
  qed
qed

lemma at_point_status:
  assumes "at_point r H q" and "runner_id q = Some i"
  shows "status r = ''queued'' \<or> status r = ''running''"
  using assms by (cases q) (auto simp: fresh_def)

lemma no_agents:
  assumes "row_inv s r" and "status r \<noteq> ''queued''" and "status r \<noteq> ''running''"
  shows "filter (\<lambda>t. snd t = id' r) (timers (world_of s)) = []"
    and "filter (\<lambda>q. runner_id q = Some (id' r)) (runners s) = []"
proof -
  from assms show "filter (\<lambda>t. snd t = id' r) (timers (world_of s)) = []"
    by (auto simp: row_inv_def fresh_def filter_empty_conv)
  from assms show "filter (\<lambda>q. runner_id q = Some (id' r)) (runners s) = []"
    by (auto simp: row_inv_def filter_empty_conv dest: at_point_status)
qed

lemma POST_run_world:
  "snd (POST_run params_id w) = w \<or>
   (\<exists>i x. getExperimentDetails i w = Some x \<and> status x \<noteq> ''running'' \<and>
          status x \<noteq> ''queued'' \<and> snd (POST_run params_id w) = queueExperiment i w)"
  by (auto simp: POST_run_def split: option.splits)

lemma ids_used_queue:
  assumes "ids_used (s\<lparr>world_of := w0\<rparr>)" and "i \<le> experiments_seq w0"
  shows "ids_used (s\<lparr>world_of := queueExperiment i w0\<rparr>)"
  using assms history_queueExperiment_subset [of i w0]
  by (auto simp: ids_used_def timers_queueExperiment)

lemma POST_run_lifecycle:
  assumes "lifecycle_inv s" and ok: "rows_ok (world_of s)"
    and d': "distinct (map id' (experiments (snd (POST_run params_id (world_of s)))))"
  shows "lifecycle_inv (s\<lparr>world_of := snd (POST_run params_id (world_of s))\<rparr>)"
proof -
  let ?w = "world_of s"
  from POST_run_world [of params_id ?w] show ?thesis
  proof (elim disjE exE conjE)
    assume "snd (POST_run params_id ?w) = ?w"
    with assms(1) show ?thesis by simp
  next
    fix i x
    assume 2: "getExperimentDetails i ?w = Some x" "status x \<noteq> ''running''"
      "status x \<noteq> ''queued''" "snd (POST_run params_id ?w) = queueExperiment i ?w"
    then obtain r where r: "row_of i ?w = Some r" "status r = status x"
      by (auto simp: getExperimentDetails_row_of extend_sel)
    then have rin: "r \<in> set (experiments ?w)" "id' r = i"
      by (auto dest: row_of_in_set)
    with assms(1) have "row_inv s r"
      by (simp add: lifecycle_inv_def)
    from no_agents [OF this] 2(2,3) r(2) rin(2)
    have na: "filter (\<lambda>t. snd t = i) (timers ?w) = []"
      "filter (\<lambda>q. runner_id q = Some i) (runners s) = []"
      by simp_all
    have rows: "row_inv (s\<lparr>world_of := queueExperiment i ?w\<rparr>) r'"
      if "r' \<in> set (experiments (queueExperiment i ?w))" for r'
      using _ na _ that
    proof (rule queue_row_inv)
      show "row_inv (s\<lparr>world_of := ?w\<rparr>) r0" if "r0 \<in> set (experiments ?w)" for r0
        using assms(1) that by (simp add: lifecycle_inv_def)
      show "distinct (map id' (experiments (queueExperiment i ?w)))"
        using d' 2(4) by simp
    qed
    have "i \<le> experiments_seq ?w"
      using ok rin by (auto simp: rows_ok_def)
    with assms(1) have "ids_used (s\<lparr>world_of := queueExperiment i ?w\<rparr>)"
      by (intro ids_used_queue) (simp_all add: lifecycle_inv_def)
    with rows 2(4) show ?thesis
      by (simp add: lifecycle_inv_def)
  qed
qed

lemma POST_world:
  "snd (POST body w) = w \<or>
   (\<exists>d. snd (POST body w) =
      queueExperiment (next_rowid (experiments_seq w) (map id' (experiments w)))
        (w\<lparr>experiments := experiments w @ [new_row d w],
           experiments_seq := next_rowid (experiments_seq w) (map id' (experiments w))\<rparr>))"
proof (cases body)
  case None
  then show ?thesis by (simp add: POST_def)
next
  case (Some d)
  show ?thesis
  proof (cases "required_missing d")
    case True
    with Some show ?thesis by (simp add: POST_missing)
  next
    case False
    show ?thesis
    proof (cases "find (similar d) (experiments w)")
      case (Some r)
      with False \<open>body = Some d\<close> show ?thesis by (simp add: POST_conflict)
    next
      case None
      with False \<open>body = Some d\<close> show ?thesis
        by (cases "all_present d") (auto simp: POST_constraint POST_created)
    qed
  qed
qed

lemma POST_lifecycle:
  assumes "lifecycle_inv s" and ok: "rows_ok (world_of s)"
    and d': "distinct (map id' (experiments (snd (POST body (world_of s)))))"
  shows "lifecycle_inv (s\<lparr>world_of := snd (POST body (world_of s))\<rparr>)"
proof -
  let ?w = "world_of s"
  let ?k = "next_rowid (experiments_seq ?w) (map id' (experiments ?w))"
  from POST_world [of body ?w] show ?thesis
  proof (elim disjE exE)
    assume "snd (POST body ?w) = ?w"
    with assms(1) show ?thesis by simp
  next
    fix d
    let ?w1 = "?w\<lparr>experiments := experiments ?w @ [new_row d ?w], experiments_seq := ?k\<rparr>"
    assume p: "snd (POST body ?w) = queueExperiment ?k ?w1"
    have k: "experiments_seq ?w < ?k"
      using fold_max_ge(1) [of "experiments_seq ?w" "map id' (experiments ?w)"]
      by (simp add: next_rowid_def)
    from assms(1) have u: "ids_used s"
      by (simp add: lifecycle_inv_def)
    have t: "filter (\<lambda>t. snd t = ?k) (timers ?w1) = []"
      using u k by (fastforce simp: ids_used_def filter_empty_conv)
    have q: "filter (\<lambda>q. runner_id q = Some ?k) (runners s) = []"
      using u k by (fastforce simp: ids_used_def filter_empty_conv)
    have rows: "row_inv (s\<lparr>world_of := queueExperiment ?k ?w1\<rparr>) r'"
      if "r' \<in> set (experiments (queueExperiment ?k ?w1))" for r'
      using _ t q _ that
    proof (rule queue_row_inv)
      fix r assume "r \<in> set (experiments ?w1)" "id' r \<noteq> ?k"
      then have "r \<in> set (experiments ?w)"
        by (auto simp: new_row_def)
      with assms(1) have "row_inv s r"
        by (simp add: lifecycle_inv_def)
      then show "row_inv (s\<lparr>world_of := ?w1\<rparr>) r"
        by (rule row_inv_cong) simp_all
    next
      show "distinct (map id' (experiments (queueExperiment ?k ?w1)))"
        using d' p by simp
    qed
    have "ids_used (s\<lparr>world_of := ?w1\<rparr>)"
      using u k by (fastforce simp: ids_used_def)
    then have "ids_used (s\<lparr>world_of := queueExperiment ?k ?w1\<rparr>)"
      by (rule ids_used_queue) simp
    with rows p show ?thesis
      by (simp add: lifecycle_inv_def)
  qed
qed

lemma DELETE_world:
  "snd (DELETE params_id w) = w \<or> (\<exists>i. snd (DELETE params_id w) = deleteExperiment i w)"
  by (auto simp: DELETE_def split: option.splits)

lemma DELETE_lifecycle:
  assumes "lifecycle_inv s"
  shows "lifecycle_inv (s\<lparr>world_of := snd (DELETE params_id (world_of s))\<rparr>)"
proof -
  let ?w = "world_of s"
  from DELETE_world [of params_id ?w] show ?thesis
  proof (elim disjE exE)
    assume "snd (DELETE params_id ?w) = ?w"
    with assms(1) show ?thesis by simp
  next
    fix i assume p: "snd (DELETE params_id ?w) = deleteExperiment i ?w"
    have rows: "row_inv (s\<lparr>world_of := deleteExperiment i ?w\<rparr>) r"
      if "r \<in> set (experiments (deleteExperiment i ?w))" for r
    proof -
      from that have r: "r \<in> set (experiments ?w)" "id' r \<noteq> i"
        by (auto simp: deleteExperiment_def delete_experiments_def delete_history_def)
      with assms have "row_inv s r"
        by (simp add: lifecycle_inv_def)
      then show ?thesis
      proof (rule row_inv_cong)
        show "history_rows (id' r) (world_of (s\<lparr>world_of := deleteExperiment i ?w\<rparr>)) =
              history_rows (id' r) ?w"
          using r(2) history_rows_delete_other [of "id' r" i ?w]
          by (simp add: deleteExperiment_def delete_experiments_def)
      qed (simp_all add: deleteExperiment_def delete_experiments_def delete_history_def)
    qed
    from assms have "ids_used (s\<lparr>world_of := deleteExperiment i ?w\<rparr>)"
      by (auto simp: lifecycle_inv_def ids_used_def deleteExperiment_def
          delete_experiments_def delete_history_def)
    with rows p show ?thesis
      by (simp add: lifecycle_inv_def)
  qed
qed

lemma filter_remove_nth:
  assumes "k < length xs"
  shows "length (filter P (take k xs @ drop (Suc k) xs)) + (if P (xs ! k) then 1 else 0) =
         length (filter P xs)"
    and "\<not> P (xs ! k) \<Longrightarrow> filter P (take k xs @ drop (Suc k) xs) = filter P xs"
proof -
  have "xs = take k xs @ xs ! k # drop (Suc k) xs"
    using assms by (rule id_take_nth_drop)
  then have *: "filter P xs = filter P (take k xs) @ filter P [xs ! k] @ filter P (drop (Suc k) xs)"
    by (metis append_Cons append_Nil filter_append)
  from * show "length (filter P (take k xs @ drop (Suc k) xs)) + (if P (xs ! k) then 1 else 0) =
         length (filter P xs)"
    by simp
  from * show "\<not> P (xs ! k) \<Longrightarrow> filter P (take k xs @ drop (Suc k) xs) = filter P xs"
    by simp
qed

lemma timer_lifecycle:
  assumes "lifecycle_inv s" and k: "k < length (timers (world_of s))"
  shows "lifecycle_inv
           (s\<lparr>world_of := (world_of s)\<lparr>timers := take k (timers (world_of s)) @
                                                  drop (Suc k) (timers (world_of s))\<rparr>,
              runners := runners s @ [Called (snd (timers (world_of s) ! k))]\<rparr>)"
proof -
  let ?w = "world_of s"
  let ?ts = "timers ?w"
  let ?i = "snd (?ts ! k)"
  let ?ts' = "take k ?ts @ drop (Suc k) ?ts"
  let ?s = "s\<lparr>world_of := ?w\<lparr>timers := ?ts'\<rparr>, runners := runners s @ [Called ?i]\<rparr>"
  have sub: "set ?ts' \<subseteq> set ?ts"
    by (auto dest: in_set_takeD in_set_dropD)
  have mem: "?ts ! k \<in> set ?ts"
    using k by simp
  from assms(1) have u: "ids_used s"
    by (simp add: lifecycle_inv_def)
  have "ids_used ?s"
    using u sub mem by (auto simp: ids_used_def)
  moreover have "row_inv ?s r" if r: "r \<in> set (experiments ?w)" for r
  proof -
    from assms(1) r have inv: "row_inv s r"
      by (simp add: lifecycle_inv_def)
    show ?thesis
    proof (cases "id' r = ?i")
      case False
      then have "\<not> snd (?ts ! k) = id' r" by simp
      from filter_remove_nth(2) [OF k, of "\<lambda>t. snd t = id' r", OF this] False inv
      show ?thesis
        by (intro row_inv_cong [of s r ?s]) auto
    next
      case True
      let ?H = "history_rows (id' r) ?w"
      from inv mem True have f: "fresh r ?H"
        by (auto simp: row_inv_def)
      have "?ts ! k \<in> set (filter (\<lambda>t. snd t = id' r) ?ts)"
        using mem True by simp
      then have "0 < length (filter (\<lambda>t. snd t = id' r) ?ts)"
        by (rule length_pos_if_in_set)
      moreover from inv have "length (filter (\<lambda>t. snd t = id' r) ?ts) +
          length (filter (\<lambda>q. runner_id q = Some (id' r)) (runners s)) \<le> 1"
        by (simp add: row_inv_def agents_def)
      ultimately have len: "length (filter (\<lambda>t. snd t = id' r) ?ts) = 1"
        "length (filter (\<lambda>q. runner_id q = Some (id' r)) (runners s)) = 0"
        by arith+
      from filter_remove_nth(1) [OF k, of "\<lambda>t. snd t = id' r"] True len(1)
      have "length (filter (\<lambda>t. snd t = id' r) ?ts') = 0"
        by simp
      then have t': "filter (\<lambda>t. snd t = id' r) ?ts' = []"
        by simp
      from len(2) have q': "filter (\<lambda>q. runner_id q = Some (id' r)) (runners s) = []"
        by simp
      show ?thesis
        unfolding row_inv_def agents_def
        using f t' q' True by (auto simp: filter_empty_conv)
    qed
  qed
  ultimately show ?thesis
    by (simp add: lifecycle_inv_def)
qed

lemma reachable_lifecycle: "reachable rnd s \<Longrightarrow> lifecycle_inv s"
proof (induction rule: reachable.induct)
  case start
  show ?case
    by (simp add: lifecycle_inv_def ids_used_def empty_world_def)
next
  case (create s body)
  have "server_inv (s\<lparr>world_of := snd (POST body (world_of s))\<rparr>)"
    by (rule reachable_inv) (rule reachable.create [OF create.hyps])
  with create.IH reachable_inv [OF create.hyps] show ?case
    by (intro POST_lifecycle) (simp_all add: server_inv_def rows_ok_def)
next
  case (poll s params_id)
  then show ?case by (simp add: GET_ok)
next
  case (delete s params_id)
  then show ?case by (intro DELETE_lifecycle)
next
  case (run_again s params_id)
  have "server_inv (s\<lparr>world_of := snd (POST_run params_id (world_of s))\<rparr>)"
    by (rule reachable_inv) (rule reachable.run_again [OF run_again.hyps])
  with run_again.IH reachable_inv [OF run_again.hyps] show ?case
    by (intro POST_run_lifecycle) (simp_all add: server_inv_def rows_ok_def)
next
  case (tick s d)
  have "row_inv (s\<lparr>world_of := (world_of s)\<lparr>now := now (world_of s) + d\<rparr>\<rparr>) r"
    if "r \<in> set (experiments (world_of s))" for r
  proof -
    from tick.IH that have "row_inv s r"
      by (simp add: lifecycle_inv_def)
    then show ?thesis
      by (rule row_inv_cong) simp_all
  qed
  with tick.IH show ?case
    by (simp add: lifecycle_inv_def ids_used_def)
next
  case (timer s k)
  then show ?case by (intro timer_lifecycle)
next
  case (resume s k)
  let ?c = "step rnd (runners s ! k) (world_of s)"
  let ?s = "s\<lparr>world_of := snd ?c, runners := (runners s)[k := fst ?c]\<rparr>"
  have "server_inv ?s"
    by (rule reachable_inv) (rule reachable.resume [OF resume.hyps])
  then have d': "distinct (map id' (experiments (snd ?c)))"
    by (simp add: server_inv_def rows_ok_def)
  from reachable_inv [OF resume.hyps(1)] have d: "distinct (map id' (experiments (world_of s)))"
    by (simp add: server_inv_def rows_ok_def)
  have "row_inv ?s r'" if "r' \<in> set (experiments (snd ?c))" for r'
    using resume.IH resume.hyps(2) d d' that by (rule resume_row_inv)
  moreover have "ids_used ?s"
    using resume.IH resume.hyps(2) by (intro resume_ids_used) (simp add: lifecycle_inv_def)
  ultimately show ?case
    by (simp add: lifecycle_inv_def)
qed

lemma completed_settled:
  assumes "reachable rnd s" and "r \<in> set (experiments (world_of s))"
    and "status r = ''completed''"
  shows "settled r (history_rows (id' r) (world_of s))"
proof -
  from reachable_lifecycle [OF assms(1)] assms(2) have inv: "row_inv s r"
    by (simp add: lifecycle_inv_def)
  from no_agents [OF inv] assms(3) have "agents (id' r) s = 0"
    by (simp add: agents_def)
  with inv show ?thesis
    by (simp add: row_inv_def)
qed

subsection \<open>Runs inside the transition system\<close>







subsection \<open>An experiment stays the first of its configuration until it is deleted\<close>

lemma find_map_keeps:
  assumes "\<And>r. P (f r) = P r"
  shows "find P (map f xs) = map_option f (find P xs)"
  using assms by (induction xs) auto

lemma first_similar_update:
  assumes "first_similar d i w" and "\<And>r. similar d (f r) = similar d r" and "\<And>r. id' (f r) = id' r"
  shows "first_similar d i (update_experiments j f w)"
proof -
  let ?g = "\<lambda>r. if id' r = j then f r else r"
  have "find (similar d) (map ?g (experiments w)) = map_option ?g (find (similar d) (experiments w))"
    by (rule find_map_keeps) (simp add: assms(2))
  with assms(1,3) show ?thesis
    by (auto simp: first_similar_def update_experiments_def)
qed

lemma first_similar_experiments:
  "experiments w' = experiments w \<Longrightarrow> first_similar d i w' = first_similar d i w"
  by (simp add: first_similar_def)

lemma find_append_Some: "find P xs = Some r \<Longrightarrow> find P (xs @ ys) = Some r"
  by (induction xs) (auto split: if_splits)

lemma find_filter_Some: "find P xs = Some r \<Longrightarrow> Q r \<Longrightarrow> find P (filter Q xs) = Some r"
  by (induction xs) (auto split: if_splits)

lemma first_similar_queue:
  "first_similar d i w \<Longrightarrow> first_similar d i (queueExperiment j w)"
proof -
  assume a: "first_similar d i w"
  have "first_similar d i (update_experiments j (\<lambda>r. r\<lparr>status := ''queued'', current_epoch := 0\<rparr>) w)"
    using a by (rule first_similar_update) (simp_all add: similar_def)
  then show ?thesis
    by (simp add: queueExperiment_def Let_def delete_history_def first_similar_def)
qed

lemma first_similar_POST:
  assumes "first_similar d i w"
  shows "first_similar d i (snd (POST body w))"
proof -
  from POST_world [of body w] show ?thesis
  proof
    assume "snd (POST body w) = w"
    with assms show ?thesis by simp
  next
    assume "\<exists>d'. snd (POST body w) =
      queueExperiment (next_rowid (experiments_seq w) (map id' (experiments w)))
        (w\<lparr>experiments := experiments w @ [new_row d' w],
           experiments_seq := next_rowid (experiments_seq w) (map id' (experiments w))\<rparr>)"
    then obtain d' where e: "snd (POST body w) =
      queueExperiment (next_rowid (experiments_seq w) (map id' (experiments w)))
        (w\<lparr>experiments := experiments w @ [new_row d' w],
           experiments_seq := next_rowid (experiments_seq w) (map id' (experiments w))\<rparr>)"
      by blast
    from assms have "first_similar d i (w\<lparr>experiments := experiments w @ [new_row d' w],
           experiments_seq := next_rowid (experiments_seq w) (map id' (experiments w))\<rparr>)"
      by (auto simp: first_similar_def find_append_Some)
    then show ?thesis
      unfolding e by (rule first_similar_queue)
  qed
qed

lemma first_similar_POST_run:
  "first_similar d i w \<Longrightarrow> first_similar d i (snd (POST_run params_id w))"
  using POST_run_world [of params_id w] by (auto simp: first_similar_queue)

lemma DELETE_refused:
  "http_status (fst (DELETE params_id w)) \<noteq> 200 \<Longrightarrow> snd (DELETE params_id w) = w"
  by (auto simp: DELETE_def split: option.splits if_splits)

lemma first_similar_DELETE_other:
  assumes "first_similar d i w" and "parseInt params_id \<noteq> Some i"
  shows "first_similar d i (snd (DELETE params_id w))"
proof (cases "parseInt params_id")
  case None
  with assms show ?thesis by (simp add: DELETE_def)
next
  case (Some j)
  with assms(2) have j: "j \<noteq> i" by simp
  from assms(1) obtain r where r: "find (similar d) (experiments w) = Some r" "id' r = i"
    by (auto simp: first_similar_def)
  with j have "find (similar d) (filter (\<lambda>r. id' r \<noteq> j) (experiments w)) = Some r"
    by (intro find_filter_Some) auto
  with r(2) have "first_similar d i (deleteExperiment j w)"
    by (simp add: first_similar_def deleteExperiment_def delete_experiments_def delete_history_def)
  with Some assms(1) show ?thesis
    by (auto simp: DELETE_def split: option.splits)
qed

lemma first_similar_DELETE:
  assumes "first_similar d i w"
    and "parseInt params_id \<noteq> Some i \<or> http_status (fst (DELETE params_id w)) \<noteq> 200"
  shows "first_similar d i (snd (DELETE params_id w))"
  using assms by (auto simp: first_similar_DELETE_other DELETE_refused)

lemma first_similar_step:
  assumes "first_similar d i w"
  shows "first_similar d i (snd (step rnd q w))"
proof (cases q)
  case (Called j)
  with assms show ?thesis by (simp split: option.splits)
next
  case (UpdateRunning j x)
  with assms show ?thesis
    by (simp add: Let_def) (rule first_similar_update, simp_all add: similar_def)
next
  case (UpdateEpoch j x t e)
  with assms show ?thesis
    by simp (rule first_similar_update, simp_all add: similar_def)
next
  case (Sleeping j x t e)
  with assms show ?thesis by (simp add: Let_def first_similar_def)
next
  case (InsertHistory j x t e a b c d')
  with assms show ?thesis by (simp add: Let_def first_similar_def insert_history_def)
next
  case (SelectLast j d')
  with assms show ?thesis by (simp split: option.splits)
next
  case (UpdateCompleted j d' l)
  with assms show ?thesis
    by simp (rule first_similar_update, simp_all add: similar_def)
next
  case (UpdateFailed j)
  with assms show ?thesis
    by simp (rule first_similar_update, simp_all add: similar_def)
next
  case Returned
  with assms show ?thesis by simp
qed

lemma later_first_similar:
  assumes "later rnd i s s'" and "first_similar d i (world_of s)"
  shows "first_similar d i (world_of s')"
  using assms
proof (induction rule: later.induct)
  case at_once
  then show ?case .
next
  case (create s' body)
  then show ?case by (simp add: first_similar_POST)
next
  case (poll s' params_id)
  then show ?case by (simp add: GET_ok)
next
  case (delete s' params_id)
  then show ?case by (simp add: first_similar_DELETE)
next
  case (run_again s' params_id)
  then show ?case by (simp add: first_similar_POST_run)
next
  case (tick s' d)
  then show ?case by (simp add: first_similar_def)
next
  case (timer s' k)
  then show ?case by (simp add: first_similar_def)
next
  case (resume s' k)
  then show ?case by (simp add: first_similar_step)
qed

lemma created_first_similar:
  assumes "POST (Some d) w = (NextResponse (ExperimentJson x) 201, w1)"
  shows "\<not> required_missing d \<and> first_similar d (id' x) w1"
proof -
  from assms have st: "http_status (fst (POST (Some d) w)) = 201"
    by simp
  then have c: "\<not> required_missing d" "find (similar d) (experiments w) = None"
      "all_present d"
    by (auto simp: POST_status_cases split: if_splits)
  let ?k = "next_rowid (experiments_seq w) (map id' (experiments w))"
  let ?r = "(new_row d w)\<lparr>status := ''queued'', current_epoch := 0\<rparr>"
  from assms POST_created [OF c]
  have x: "x = experiments_row.extend (new_row d w) (ExperimentDetails.fields (select_history ?k w))"
    and w1: "experiments w1 = experiments w @ [?r]"
    by (auto simp: experiments_queue_created)
  have k: "id' x = id' ?r"
    by (simp add: x extend_sel)
  have "find (similar d) (experiments w1) = Some ?r"
    unfolding w1 using c(2,3) by (rule find_similar_created)
  with k c(1) show ?thesis
    by (auto simp: first_similar_def)
qed

lemma duplicate_after_refusal_example:
  "POST (Some example_unnamed) empty_world =
     (NextResponse (ErrorJson ''Missing required fields'') 400, empty_world) \<and>
   config_tuple example_config = config_tuple example_unnamed \<and>
   http_status (fst (POST (Some example_config) empty_world)) = 201"
  by (simp add: example_post config_tuple_def)
    (simp add: example_unnamed_def POST_def falsy_string_def)

lemma duplicate_after_delete_example:
  "DELETE ''1'' example_queued = (NextResponse SuccessJson 200, snd (DELETE ''1'' example_queued)) \<and>
   http_status (fst (POST (Some example_renamed) (snd (DELETE ''1'' example_queued)))) = 201"
  by (simp add: DELETE_def parseInt_1 store_defs example_queued_eq deleteExperiment_def
      delete_experiments_def delete_history_def select_history_def POST_status_cases
      required_missing_def all_present_def example_renamed_def example_config_def)

subsection \<open>A run among other activities\<close>

lemma run_among_inv:
  assumes "run_among rnd i w0 q w" and "row_of i w0 = Some r0"
    and "fresh r0 (history_rows i w0)"
  shows "\<exists>r. row_of i w = Some r \<and>
           (if q = Returned then settled r (history_rows i w)
            else runner_id q = Some i \<and> at_point r (history_rows i w) q)"
  using assms
proof (induction rule: run_among.induct)
  case called
  then show ?case by simp
next
  case (own_step q w)
  then obtain r where r: "row_of i w = Some r"
    and c: "if q = Returned then settled r (history_rows i w)
            else runner_id q = Some i \<and> at_point r (history_rows i w) q"
    by blast
  show ?case
  proof (cases "q = Returned")
    case True
    with r c show ?thesis by simp
  next
    case False
    with c have q: "runner_id q = Some i" "at_point r (history_rows i w) q"
      by simp_all
    from at_point_step [OF r q, of rnd] step_runner_id [of rnd q w] q(1) show ?thesis
      by auto
  qed
next
  case (others q w w')
  then show ?case
    by (auto simp: untouched_def)
qed

lemma run_among_run:
  assumes "run_among rnd i w0 q w"
  shows "run_among rnd i w0 Returned (snd (last (run rnd q w)))"
  using assms
proof (induction rnd q w rule: run.induct)
  case (1 rnd q w)
  show ?case
  proof (cases "q = Returned")
    case True
    with "1.prems" show ?thesis by (simp add: run_Returned)
  next
    case False
    from "1.prems" have "run_among rnd i w0 (fst (step rnd q w)) (snd (step rnd q w))"
      by (rule run_among.own_step)
    from "1.IH" [OF False this] False show ?thesis
      by (simp add: run_step run_nonempty)
  qed
qed

lemma untouched_refl: "untouched i w w"
  by (simp add: untouched_def)

lemma untouched_clock:
  "untouched i w (w\<lparr>now := t\<rparr>)" "untouched i w (w\<lparr>timers := ts\<rparr>)"
  by (simp_all add: untouched_def)

lemma untouched_GET: "untouched i w (snd (GET params_id w))"
  by (simp add: GET_ok untouched_def)

lemma untouched_POST:
  assumes "row_of i w = Some r"
  shows "untouched i w (snd (POST body w))"
proof -
  let ?k = "next_rowid (experiments_seq w) (map id' (experiments w))"
  from assms have k: "?k \<noteq> i"
    using next_rowid_fresh [of r "experiments w" "experiments_seq w"]
    by (auto dest: row_of_in_set)
  have "untouched i w (queueExperiment ?k
          (w\<lparr>experiments := experiments w @ [new_row d w], experiments_seq := ?k\<rparr>))" for d
    using assms k
    by (simp add: untouched_def row_of_queueExperiment history_rows_queue_other)
      (simp add: row_of_def find_append_Some)
  with POST_world [of body w] show ?thesis
    by (auto simp: untouched_refl)
qed

lemma find_filter_other:
  "j \<noteq> i \<Longrightarrow>
   find (\<lambda>r. id' r = i) (filter (\<lambda>r. id' r \<noteq> j) rs) = find (\<lambda>r. id' r = i) rs"
  by (induction rs) auto

lemma untouched_deleteExperiment: "j \<noteq> i \<Longrightarrow> untouched i w (deleteExperiment j w)"
  by (simp add: untouched_def deleteExperiment_def delete_experiments_def row_of_def
      find_filter_other history_rows_def)
    (simp add: delete_history_def filter_filter_other del: filter_filter)

lemma untouched_DELETE:
  assumes "parseInt params_id \<noteq> Some i"
  shows "untouched i w (snd (DELETE params_id w))"
  using assms
  by (auto simp: DELETE_def untouched_refl untouched_deleteExperiment split: option.splits)

lemma untouched_POST_run:
  assumes "parseInt params_id \<noteq> Some i"
  shows "untouched i w (snd (POST_run params_id w))"
  using assms
  by (auto simp: POST_run_def untouched_def row_of_queueExperiment history_rows_queue_other
      split: option.splits)

lemma untouched_step:
  assumes "runner_id q \<noteq> Some i"
  shows "untouched i w (snd (step rnd q w))"
proof (cases "runner_id q")
  case None
  then have "q = Returned"
    by (cases q) simp_all
  then show ?thesis
    by (simp add: untouched_def)
next
  case (Some j)
  with assms have "j \<noteq> i" by simp
  from step_other_row [OF Some this [symmetric]] show ?thesis
    by (simp add: untouched_def)
qed

subsection \<open>Two runs of one experiment that overlap\<close>

lemma POST_run_split:
  "POST_run params_id w =
     (case POST_run_check params_id w of
        Inl resp \<Rightarrow> (resp, w)
      | Inr i \<Rightarrow> (NextResponse SuccessJson 200, queueExperiment i w))"
  by (simp add: POST_run_def POST_run_check_def split: option.splits)

lemma overlapping_runs_example:
  "POST_run_check ''1'' example_completed = Inr 1 \<and>
   fst example_overlapping = [Returned, Returned] \<and>
   map_option status (getExperimentDetails 1 (snd example_overlapping)) = Some ''completed'' \<and>
   map_option epochs (getExperimentDetails 1 (snd example_overlapping)) = Some 2 \<and>
   map_option (\<lambda>x. map epoch (history x)) (getExperimentDetails 1 (snd example_overlapping)) =
     Some [1, 1, 2, 2] \<and>
   map_option accuracy (getExperimentDetails 1 (snd example_overlapping)) =
     Some (Some (0.85 - 0.5 * exp (- 0.4) + 0.05 * 0.19)) \<and>
   map_option (\<lambda>x. val_acc (last (history x))) (getExperimentDetails 1 (snd example_overlapping)) =
     Some (0.85 - 0.5 * exp (- 0.4) + 0.05 * 0.23)"
proof -
  have "POST_run_check ''1'' example_completed = Inr 1"
    by (simp add: POST_run_check_def parseInt_1 example_completed_eq getExperimentDetails_def
        extend_sel)
  moreover have "fst example_overlapping = [Returned, Returned]"
    unfolding example_overlapping_def
    by (simp add: example_completed_eq store_defs example_fine_draws_def Let_def)
  moreover have "getExperimentDetails 1 (snd example_overlapping) =
    Some
     \<lparr>id' = 1, name = ''Experiment-1'', learning_rate = 1 / 100,
        batch_size = 64, epochs = 2, optimizer = ''adam'',
        model_type = ''simple'', hidden_layers = 2, neurons_per_layer = 128,
        status = ''completed'', created_at = 0,
        accuracy = Some (0.85 - 0.5 * exp (- 0.4) + 0.05 * 0.19),
        loss = Some (0.6 * exp (- 0.2) + 0.15 * 0.17), duration = Some 4,
        current_epoch = 2,
        history =
          [\<lparr>epoch = 1, train_loss = 0.5 * exp (- 0.1) + 0.1 * 0.08,
              val_loss = 0.6 * exp (- 0.1) + 0.15 * 0.09,
              train_acc = 0.9 - 0.5 * exp (- 0.2) + 0.05 * 0.10,
              val_acc = 0.85 - 0.5 * exp (- 0.2) + 0.05 * 0.11\<rparr>,
           \<lparr>epoch = 1, train_loss = 0.5 * exp (- 0.1) + 0.1 * 0.12,
              val_loss = 0.6 * exp (- 0.1) + 0.15 * 0.13,
              train_acc = 0.9 - 0.5 * exp (- 0.2) + 0.05 * 0.14,
              val_acc = 0.85 - 0.5 * exp (- 0.2) + 0.05 * 0.15\<rparr>,
           \<lparr>epoch = 2, train_loss = 0.5 * exp (- 0.2) + 0.1 * 0.16,
              val_loss = 0.6 * exp (- 0.2) + 0.15 * 0.17,
              train_acc = 0.9 - 0.5 * exp (- 0.4) + 0.05 * 0.18,
              val_acc = 0.85 - 0.5 * exp (- 0.4) + 0.05 * 0.19\<rparr>,
           \<lparr>epoch = 2, train_loss = 0.5 * exp (- 0.2) + 0.1 * 0.20,
              val_loss = 0.6 * exp (- 0.2) + 0.15 * 0.21,
              train_acc = 0.9 - 0.5 * exp (- 0.4) + 0.05 * 0.22,
              val_acc = 0.85 - 0.5 * exp (- 0.4) + 0.05 * 0.23\<rparr>]\<rparr>"
    unfolding example_overlapping_def
    by (simp add: example_completed_eq store_defs example_fine_draws_def Let_def
        extend_sel experiments_row.defs ExperimentDetails.defs ExperimentHistory.defs)
  ultimately show ?thesis
    by simp
qed

section \<open>The claims\<close>

subsection \<open>C10: the runner on an unknown id\<close>

text \<open>
  Claim C10. For every id that has no experiment record in the store,
  \<^verbatim>\<open>runExperiment(id)\<close> returns without modifying any experiment row or history entry:
  the whole world, store included, is the one it was called in.
\<close>

theorem runExperiment_unknown_id:
  assumes "getExperimentDetails i w = None"
  shows "runExperiment rnd i w = w"
  using assms by (simp add: runExperiment_def run_step run_Returned)

theorem runExperiment_unknown_id_witness:
  "getExperimentDetails 2 example_queued = None \<and>
   runExperiment zero_draws 2 example_queued = example_queued"
proof -
  have h: "getExperimentDetails 2 example_queued = None"
    by (simp add: example_queued_eq getExperimentDetails_def)
  from runExperiment_unknown_id [OF h] h show ?thesis by simp
qed

subsection \<open>C8: what the create handler sends back\<close>

text \<open>
  Claim C8. For every successful \<^verbatim>\<open>POST /experiments\<close> request, the body of the 201
  response is the experiment record as it was fetched right after the insertion and
  before the enqueueing: its status is \<^verbatim>\<open>not_started\<close> and its \<^verbatim>\<open>current_epoch\<close> is 0,
  although the stored record already has status \<^verbatim>\<open>queued\<close> when the response is sent.
\<close>

theorem POST_answers_with_the_row_before_queueing:
  assumes "POST body w = (resp, w')" and "http_status resp = 201"
  shows "\<exists>d experiment w1.
           body = Some d \<and> createExperiment d w = Inr (Some experiment, w1) \<and>
           getExperimentDetails (id' experiment) w1 = Some experiment \<and>
           resp = NextResponse (ExperimentJson experiment) 201 \<and>
           w' = queueExperiment (id' experiment) w1 \<and>
           status experiment = ''not_started'' \<and> current_epoch experiment = 0 \<and>
           (\<exists>stored. getExperimentDetails (id' experiment) w' = Some stored \<and>
              status stored = ''queued'')"
proof -
  from assms obtain d where d: "body = Some d"
    by (cases body) (auto simp: POST_def)
  from assms d have st: "http_status (fst (POST (Some d) w)) = 201"
    by simp
  then have c: "\<not> required_missing d" "find (similar d) (experiments w) = None" "all_present d"
    by (auto simp: POST_status_cases split: if_splits)
  let ?k = "next_rowid (experiments_seq w) (map id' (experiments w))"
  let ?w1 = "w\<lparr>experiments := experiments w @ [new_row d w], experiments_seq := ?k\<rparr>"
  let ?x = "experiments_row.extend (new_row d w) (ExperimentDetails.fields (select_history ?k w))"
  have k: "id' ?x = ?k"
    by (simp add: extend_sel new_row_def)
  have sh: "select_history ?k ?w1 = select_history ?k w"
    by (simp add: select_history_def)
  have create: "createExperiment d w = Inr (Some ?x, ?w1)"
    using c(3) by (rule createExperiment_present)
  have get1: "getExperimentDetails ?k ?w1 = Some ?x"
    by (simp add: getExperimentDetails_row_of row_of_created sh)
  have post: "POST (Some d) w = (NextResponse (ExperimentJson ?x) 201, queueExperiment ?k ?w1)"
    using c by (rule POST_created)
  have "row_of ?k (queueExperiment ?k ?w1) =
        Some ((new_row d w)\<lparr>status := ''queued'', current_epoch := 0\<rparr>)"
    by (simp add: row_of_queueExperiment row_of_created)
  then have "\<exists>stored. getExperimentDetails ?k (queueExperiment ?k ?w1) = Some stored \<and>
                status stored = ''queued''"
    by (simp add: getExperimentDetails_row_of extend_sel)
  with assms d create get1 post k show ?thesis
    by (simp add: extend_sel new_row_def)
qed

theorem POST_answers_with_the_row_before_queueing_witness:
  "http_status (fst (POST (Some example_config) empty_world)) = 201 \<and>
   (\<exists>d experiment w1.
      Some example_config = Some d \<and>
      createExperiment d empty_world = Inr (Some experiment, w1) \<and>
      getExperimentDetails (id' experiment) w1 = Some experiment \<and>
      fst (POST (Some example_config) empty_world) =
        NextResponse (ExperimentJson experiment) 201 \<and>
      example_queued = queueExperiment (id' experiment) w1 \<and>
      status experiment = ''not_started'' \<and> current_epoch experiment = 0 \<and>
      (\<exists>stored. getExperimentDetails (id' experiment) example_queued = Some stored \<and>
         status stored = ''queued''))"
proof -
  have p: "POST (Some example_config) empty_world =
           (fst (POST (Some example_config) empty_world), example_queued)"
    by (simp add: example_post)
  have h: "http_status (fst (POST (Some example_config) empty_world)) = 201"
    by (simp add: example_post)
  from POST_answers_with_the_row_before_queueing [OF p h] h show ?thesis
    by simp
qed

subsection \<open>C9: the presence check tests truthiness\<close>

text \<open>
  Claim C9. For every \<^verbatim>\<open>POST /experiments\<close> request in which one of the fields name,
  learning_rate, batch_size, epochs, optimizer is absent or present with a falsy value
  (\<^verbatim>\<open>learning_rate = 0\<close>, \<^verbatim>\<open>batch_size = 0\<close>, \<^verbatim>\<open>epochs = 0\<close>, \<^verbatim>\<open>name = ""\<close>), the request is
  rejected with 400 "Missing required fields" and the world is unchanged; no other
  request is answered 400. The fields model_type, hidden_layers and neurons_per_layer
  are not checked: a request that lacks one of them passes the presence check, and ends
  in the 500 of the failed insertion.
\<close>

theorem POST_required_fields_by_truthiness:
  "(required_missing d \<longrightarrow>
      POST (Some d) w = (NextResponse (ErrorJson ''Missing required fields'') 400, w)) \<and>
   (http_status (fst (POST (Some d) w)) = 400 \<longrightarrow> required_missing d) \<and>
   (\<not> required_missing d \<and>
    (data.model_type d = None \<or> data.hidden_layers d = None \<or>
     data.neurons_per_layer d = None) \<longrightarrow>
      POST (Some d) w = (NextResponse (ErrorJson ''Failed to create experiment'') 500, w))"
proof (intro conjI impI)
  assume "required_missing d"
  then show "POST (Some d) w = (NextResponse (ErrorJson ''Missing required fields'') 400, w)"
    by (rule POST_missing)
next
  assume "http_status (fst (POST (Some d) w)) = 400"
  then show "required_missing d"
    by (simp add: POST_status_cases split: if_splits)
next
  assume a: "\<not> required_missing d \<and>
    (data.model_type d = None \<or> data.hidden_layers d = None \<or> data.neurons_per_layer d = None)"
  then have np: "\<not> all_present d"
    by (auto simp: all_present_def)
  with a have "find (similar d) (experiments w) = None"
    by (auto simp: find_None_iff dest: similar_absent)
  with a np show "POST (Some d) w =
      (NextResponse (ErrorJson ''Failed to create experiment'') 500, w)"
    by (simp add: POST_constraint)
qed

theorem POST_required_fields_by_truthiness_witness:
  "required_missing example_zero_rate \<and>
   POST (Some example_zero_rate) example_queued =
     (NextResponse (ErrorJson ''Missing required fields'') 400, example_queued) \<and>
   http_status (fst (POST (Some example_zero_rate) example_queued)) = 400 \<and>
   \<not> required_missing example_no_architecture \<and>
   data.model_type example_no_architecture = None \<and>
   POST (Some example_no_architecture) example_queued =
     (NextResponse (ErrorJson ''Failed to create experiment'') 500, example_queued)"
proof -
  have a: "required_missing example_zero_rate"
    by (simp add: required_missing_def example_zero_rate_def example_config_def)
  have b: "\<not> required_missing example_no_architecture"
    "data.model_type example_no_architecture = None"
    by (simp_all add: required_missing_def example_no_architecture_def example_config_def)
  from POST_required_fields_by_truthiness [of example_zero_rate example_queued]
    POST_required_fields_by_truthiness [of example_no_architecture example_queued] a b
  show ?thesis by simp
qed

subsection \<open>C4: bounds and enumerations are not checked by the create handler\<close>

text \<open>
  Claim C4 says that a create request with a field outside its declared bound or
  enumeration fails with 400 and inserts nothing. The handler has no such check: a
  request for 100 epochs, which the schema of the form rejects, is answered 201 and its
  row is inserted.
\<close>

theorem POST_accepts_out_of_bounds_counterexample:
  "data.epochs example_hundred_epochs = Some 100 \<and> \<not> formSchema example_hundred_epochs \<and>
   http_status (fst (POST (Some example_hundred_epochs) empty_world)) = 201 \<and>
   map epochs (experiments (snd (POST (Some example_hundred_epochs) empty_world))) = [100]"
  by (simp add: example_hundred_epochs_def example_config_def formSchema_def)
    (simp add: empty_world_def POST_def store_defs)

text \<open>
  Claim C4 as amended. A create request is answered 400 only when a required field is
  absent or falsy; such a request is also one the schema of the form rejects, and it
  inserts nothing. A request with all eight fields present, the five required ones
  truthy and no experiment of the same configuration is answered 201 and inserts one
  row carrying the submitted values, whatever they are.
\<close>

theorem POST_checks_presence_not_bounds:
  "(http_status (fst (POST (Some d) w)) = 400 \<longrightarrow>
      required_missing d \<and> \<not> formSchema d \<and> snd (POST (Some d) w) = w) \<and>
   (all_present d \<and> \<not> required_missing d \<and> findSimilarExperiment d w = None \<longrightarrow>
      http_status (fst (POST (Some d) w)) = 201 \<and>
      (\<exists>r. experiments (snd (POST (Some d) w)) = experiments w @ [r] \<and>
           data.name d = Some (name r) \<and> data.learning_rate d = Some (learning_rate r) \<and>
           data.batch_size d = Some (batch_size r) \<and> data.epochs d = Some (epochs r) \<and>
           data.optimizer d = Some (optimizer r) \<and> data.model_type d = Some (model_type r) \<and>
           data.hidden_layers d = Some (hidden_layers r) \<and>
           data.neurons_per_layer d = Some (neurons_per_layer r)))"
proof (rule conjI; rule impI)
  assume "http_status (fst (POST (Some d) w)) = 400"
  then have m: "required_missing d"
    by (simp add: POST_status_cases split: if_splits)
  then show "required_missing d \<and> \<not> formSchema d \<and> snd (POST (Some d) w) = w"
    using formSchema_not_missing [of d] by (auto simp: POST_missing)
next
  assume a: "all_present d \<and> \<not> required_missing d \<and> findSimilarExperiment d w = None"
  then have f: "find (similar d) (experiments w) = None"
    by (simp add: findSimilarExperiment_def)
  from a have s: "http_status (fst (POST (Some d) w)) = 201"
    by (simp add: POST_status_cases f)
  let ?r = "(new_row d w)\<lparr>status := ''queued'', current_epoch := 0\<rparr>"
  have "experiments (snd (POST (Some d) w)) = experiments w @ [?r]"
    using a f by (simp add: POST_created experiments_queue_created)
  moreover from a have "data.name d = Some (name ?r) \<and>
      data.learning_rate d = Some (learning_rate ?r) \<and>
      data.batch_size d = Some (batch_size ?r) \<and> data.epochs d = Some (epochs ?r) \<and>
      data.optimizer d = Some (optimizer ?r) \<and> data.model_type d = Some (model_type ?r) \<and>
      data.hidden_layers d = Some (hidden_layers ?r) \<and>
      data.neurons_per_layer d = Some (neurons_per_layer ?r)"
    by (auto simp: all_present_def new_row_def)
  ultimately have "\<exists>r. experiments (snd (POST (Some d) w)) = experiments w @ [r] \<and>
           data.name d = Some (name r) \<and> data.learning_rate d = Some (learning_rate r) \<and>
           data.batch_size d = Some (batch_size r) \<and> data.epochs d = Some (epochs r) \<and>
           data.optimizer d = Some (optimizer r) \<and> data.model_type d = Some (model_type r) \<and>
           data.hidden_layers d = Some (hidden_layers r) \<and>
           data.neurons_per_layer d = Some (neurons_per_layer r)"
    by blast
  with s show "http_status (fst (POST (Some d) w)) = 201 \<and>
      (\<exists>r. experiments (snd (POST (Some d) w)) = experiments w @ [r] \<and>
           data.name d = Some (name r) \<and> data.learning_rate d = Some (learning_rate r) \<and>
           data.batch_size d = Some (batch_size r) \<and> data.epochs d = Some (epochs r) \<and>
           data.optimizer d = Some (optimizer r) \<and> data.model_type d = Some (model_type r) \<and>
           data.hidden_layers d = Some (hidden_layers r) \<and>
           data.neurons_per_layer d = Some (neurons_per_layer r))"
    by (rule conjI)
qed

theorem POST_checks_presence_not_bounds_witness:
  "http_status (fst (POST (Some example_zero_rate) example_queued)) = 400 \<and>
   required_missing example_zero_rate \<and> \<not> formSchema example_zero_rate \<and>
   snd (POST (Some example_zero_rate) example_queued) = example_queued \<and>
   all_present example_hundred_epochs \<and> \<not> required_missing example_hundred_epochs \<and>
   findSimilarExperiment example_hundred_epochs example_queued = None \<and>
   http_status (fst (POST (Some example_hundred_epochs) example_queued)) = 201 \<and>
   (\<exists>r. experiments (snd (POST (Some example_hundred_epochs) example_queued)) =
          experiments example_queued @ [r] \<and>
        data.epochs example_hundred_epochs = Some (epochs r))"
proof -
  have a: "http_status (fst (POST (Some example_zero_rate) example_queued)) = 400"
    by (simp add: POST_def example_zero_rate_def example_config_def falsy_string_def
        falsy_number_def)
  have b: "all_present example_hundred_epochs \<and> \<not> required_missing example_hundred_epochs \<and>
           findSimilarExperiment example_hundred_epochs example_queued = None"
    by (simp add: all_present_def required_missing_def example_hundred_epochs_def
        example_config_def example_queued_eq findSimilarExperiment_def similar_def)
  from POST_checks_presence_not_bounds [of example_zero_rate example_queued]
    POST_checks_presence_not_bounds [of example_hundred_epochs example_queued] a b
  show ?thesis by blast
qed

subsection \<open>C3: a second request with the same configuration\<close>

text \<open>
  Claim C3 says that of two create requests with identical configuration tuples the
  second always fails with 409. The presence check comes first: a second request with
  the same tuple and an empty name is answered 400.
\<close>

theorem POST_duplicate_without_name_counterexample:
  "http_status (fst (POST (Some example_config) empty_world)) = 201 \<and>
   snd (POST (Some example_config) empty_world) = example_queued \<and>
   config_tuple example_unnamed = config_tuple example_config \<and>
   POST (Some example_unnamed) example_queued =
     (NextResponse (ErrorJson ''Missing required fields'') 400, example_queued)"
proof -
  have "POST (Some example_unnamed) example_queued =
     (NextResponse (ErrorJson ''Missing required fields'') 400, example_queued)"
    by (simp add: example_unnamed_def POST_def falsy_string_def)
  moreover have "config_tuple example_unnamed = config_tuple example_config"
    by (simp add: config_tuple_def example_unnamed_def)
  ultimately show ?thesis
    by (simp add: example_post)
qed

text \<open>
  Claim C3 as amended. When a create request has been answered 201 and the experiment it
  created has not been deleted since, a later create request with the same configuration
  tuple (learning_rate, batch_size, epochs, optimizer, model_type, hidden_layers,
  neurons_per_layer) fails with 409 carrying the id of that experiment, unless its name is
  absent or empty, in which case it fails with 400. This holds whatever requests were
  handled and whatever steps the runners took between the two, other experiments having
  been created or deleted; either way the later request leaves the world as it found it:
  no second row is inserted. (Once the experiment is deleted the configuration is free
  again, and a request that was refused has stored nothing a later request could
  duplicate: lemmas \<open>duplicate_after_delete_example\<close> and
  \<open>duplicate_after_refusal_example\<close>.)
\<close>

theorem POST_duplicate_configuration:
  assumes "POST (Some d1) (world_of s) = (NextResponse (ExperimentJson x) 201, w1)"
    and "later rnd (id' x) (s\<lparr>world_of := w1\<rparr>) s2"
    and "config_tuple d2 = config_tuple d1"
  shows "POST (Some d2) (world_of s2) =
           (if falsy_string (data.name d2)
            then NextResponse (ErrorJson ''Missing required fields'') 400
            else NextResponse (ConflictJson ''Similar experiment already exists'' (id' x)) 409,
            world_of s2)"
proof -
  from created_first_similar [OF assms(1)]
  have c: "\<not> required_missing d1" and f: "first_similar d1 (id' x) w1"
    by simp_all
  from later_first_similar [OF assms(2)] f have "first_similar d1 (id' x) (world_of s2)"
    by simp
  then obtain r where r: "find (similar d1) (experiments (world_of s2)) = Some r" "id' r = id' x"
    by (auto simp: first_similar_def)
  then have f2: "find (similar d2) (experiments (world_of s2)) = Some r"
    by (simp add: similar_config_tuple [OF assms(3)] cong: find_cong)
  have m: "required_missing d2 \<longleftrightarrow> falsy_string (data.name d2)"
    using assms(3) c by (rule required_missing_config_tuple)
  show ?thesis
  proof (cases "falsy_string (data.name d2)")
    case True
    with m show ?thesis by (simp add: POST_missing)
  next
    case False
    with m f2 r(2) show ?thesis by (simp add: POST_conflict)
  qed
qed

theorem POST_duplicate_configuration_witness:
  "POST (Some example_config) empty_world =
     (NextResponse
        (ExperimentJson
           \<lparr>id' = 1, name = ''Experiment-1'', learning_rate = 0.01, batch_size = 64,
            epochs = 2, optimizer = ''adam'', model_type = ''simple'', hidden_layers = 2,
            neurons_per_layer = 128, status = ''not_started'', created_at = 0,
            accuracy = None, loss = None, duration = None, current_epoch = 0, history = []\<rparr>)
        201,
      example_queued) \<and>
   http_status (fst (POST (Some example_hundred_epochs) example_queued)) = 201 \<and>
   config_tuple example_renamed = config_tuple example_config \<and>
   POST (Some example_renamed) (snd (POST (Some example_hundred_epochs) example_queued)) =
     (NextResponse (ConflictJson ''Similar experiment already exists'' 1) 409,
      snd (POST (Some example_hundred_epochs) example_queued))"
proof -
  let ?s = "\<lparr>world_of = empty_world, runners = []\<rparr>"
  let ?x = "\<lparr>id' = 1, name = ''Experiment-1'', learning_rate = 0.01, batch_size = 64,
            epochs = 2, optimizer = ''adam'', model_type = ''simple'', hidden_layers = 2,
            neurons_per_layer = 128, status = ''not_started'', created_at = 0,
            accuracy = None, loss = None, duration = None, current_epoch = 0, history = []\<rparr>"
  have p: "POST (Some example_config) (world_of ?s) =
     (NextResponse (ExperimentJson ?x) 201, example_queued)"
    by (simp add: example_post)
  have l: "later zero_draws (id' ?x) (?s\<lparr>world_of := example_queued\<rparr>)
     ((?s\<lparr>world_of := example_queued\<rparr>)
        \<lparr>world_of := snd (POST (Some example_hundred_epochs)
                            (world_of (?s\<lparr>world_of := example_queued\<rparr>)))\<rparr>)"
    by (rule later.create) (rule later.at_once)
  have b: "http_status (fst (POST (Some example_hundred_epochs) example_queued)) = 201"
    by (simp add: POST_status_cases required_missing_def all_present_def similar_def
        example_hundred_epochs_def example_config_def example_queued_eq)
  have t: "config_tuple example_renamed = config_tuple example_config"
    by (simp add: config_tuple_def example_renamed_def)
  have n: "\<not> falsy_string (data.name example_renamed)"
    by (simp add: falsy_string_def example_renamed_def)
  from POST_duplicate_configuration [OF p l t] p b t n show ?thesis
    by simp
qed

subsection \<open>C6: deleting an existing experiment\<close>

text \<open>
  Claim C6. For every existing experiment id, \<^verbatim>\<open>DELETE\<close> fails with 400 when the status
  of the experiment is \<^verbatim>\<open>running\<close> and leaves the world unchanged; for every other status
  it succeeds and removes the row of the experiment and every history row of that id,
  and nothing else.
\<close>

theorem DELETE_existing_experiment:
  assumes "parseInt params_id = Some i" and "getExperimentDetails i w = Some experiment"
  shows "(status experiment = ''running'' \<longrightarrow>
            DELETE params_id w =
              (NextResponse (ErrorJson ''Cannot delete a running experiment'') 400, w)) \<and>
         (status experiment \<noteq> ''running'' \<longrightarrow>
            fst (DELETE params_id w) = NextResponse SuccessJson 200 \<and>
            getExperimentDetails i (snd (DELETE params_id w)) = None \<and>
            (\<forall>h \<in> set (experiment_history (snd (DELETE params_id w))). experiment_id h \<noteq> i) \<and>
            experiments (snd (DELETE params_id w)) =
              filter (\<lambda>r. id' r \<noteq> i) (experiments w) \<and>
            experiment_history (snd (DELETE params_id w)) =
              filter (\<lambda>h. experiment_id h \<noteq> i) (experiment_history w))"
proof (rule conjI; rule impI)
  assume "status experiment = ''running''"
  with assms show "DELETE params_id w =
      (NextResponse (ErrorJson ''Cannot delete a running experiment'') 400, w)"
    by (simp add: DELETE_def)
next
  assume "status experiment \<noteq> ''running''"
  with assms have d: "DELETE params_id w = (NextResponse SuccessJson 200, deleteExperiment i w)"
    by (simp add: DELETE_def)
  have "find (\<lambda>r. id' r = i) (filter (\<lambda>r. id' r \<noteq> i) (experiments w)) = None"
    by (simp add: find_None_iff)
  then have "getExperimentDetails i (deleteExperiment i w) = None"
    by (simp add: getExperimentDetails_def deleteExperiment_def delete_experiments_def
        delete_history_def)
  with d show "fst (DELETE params_id w) = NextResponse SuccessJson 200 \<and>
            getExperimentDetails i (snd (DELETE params_id w)) = None \<and>
            (\<forall>h \<in> set (experiment_history (snd (DELETE params_id w))). experiment_id h \<noteq> i) \<and>
            experiments (snd (DELETE params_id w)) =
              filter (\<lambda>r. id' r \<noteq> i) (experiments w) \<and>
            experiment_history (snd (DELETE params_id w)) =
              filter (\<lambda>h. experiment_id h \<noteq> i) (experiment_history w)"
    by (simp add: deleteExperiment_def delete_experiments_def delete_history_def)
qed

theorem DELETE_existing_experiment_witness:
  "parseInt ''1'' = Some 1 \<and>
   map_option status (getExperimentDetails 1 example_running) = Some ''running'' \<and>
   DELETE ''1'' example_running =
     (NextResponse (ErrorJson ''Cannot delete a running experiment'') 400, example_running) \<and>
   map_option status (getExperimentDetails 1 example_completed) = Some ''completed'' \<and>
   fst (DELETE ''1'' example_completed) = NextResponse SuccessJson 200 \<and>
   getExperimentDetails 1 (snd (DELETE ''1'' example_completed)) = None \<and>
   length (experiment_history example_completed) = 2 \<and>
   experiment_history (snd (DELETE ''1'' example_completed)) = []"
proof -
  obtain x where x: "getExperimentDetails 1 example_running = Some x" "status x = ''running''"
    by (simp add: example_running_eq getExperimentDetails_def extend_sel)
  obtain y where y: "getExperimentDetails 1 example_completed = Some y"
    "status y = ''completed''"
    by (simp add: example_completed_eq getExperimentDetails_def extend_sel)
  have h: "filter (\<lambda>h. experiment_id h \<noteq> 1) (experiment_history example_completed) = []"
    "length (experiment_history example_completed) = 2"
    by (simp_all add: example_completed_eq)
  from DELETE_existing_experiment [OF parseInt_1 x(1)]
    DELETE_existing_experiment [OF parseInt_1 y(1)] x y h parseInt_1
  show ?thesis by simp
qed

subsection \<open>C1: the record of a completed run\<close>

text \<open>
  Claim C1 says that every experiment whose run has completed has exactly \<^verbatim>\<open>epochs\<close>
  history entries, numbered \<open>1, 2, ..., epochs\<close>, and carries the \<^verbatim>\<open>val_acc\<close> and the
  \<^verbatim>\<open>val_loss\<close> of the last of them. The create handler accepts a request for two and a
  half epochs; the loop \<^verbatim>\<open>for (let epoch = 1; epoch <= experiment.epochs; epoch++)\<close> runs
  twice, and the run completes with two history entries under \<^verbatim>\<open>epochs = 2.5\<close>.
\<close>

theorem completed_run_fractional_epochs_counterexample:
  "http_status (fst (POST (Some example_fractional_epochs) empty_world)) = 201 \<and>
   getExperimentDetails 1 example_fractional_completed =
     Some
      \<lparr>id' = 1, name = ''Experiment-1'', learning_rate = 0.01, batch_size = 64,
       epochs = 2.5, optimizer = ''adam'', model_type = ''simple'', hidden_layers = 2,
       neurons_per_layer = 128, status = ''completed'', created_at = 0,
       accuracy = Some (0.85 - 0.5 * exp (- 0.4)), loss = Some (0.6 * exp (- 0.2)),
       duration = Some 2, current_epoch = 2,
       history =
         [\<lparr>epoch = 1, train_loss = 0.5 * exp (- 0.1), val_loss = 0.6 * exp (- 0.1),
           train_acc = 0.9 - 0.5 * exp (- 0.2), val_acc = 0.85 - 0.5 * exp (- 0.2)\<rparr>,
          \<lparr>epoch = 2, train_loss = 0.5 * exp (- 0.2), val_loss = 0.6 * exp (- 0.2),
           train_acc = 0.9 - 0.5 * exp (- 0.4), val_acc = 0.85 - 0.5 * exp (- 0.4)\<rparr>]\<rparr>"
proof -
  have "http_status (fst (POST (Some example_fractional_epochs) empty_world)) = 201"
    by (simp add: POST_status_cases required_missing_def all_present_def
        example_fractional_epochs_def example_config_def empty_world_def)
  moreover have "getExperimentDetails 1 example_fractional_completed =
     Some
      \<lparr>id' = 1, name = ''Experiment-1'', learning_rate = 0.01, batch_size = 64,
       epochs = 2.5, optimizer = ''adam'', model_type = ''simple'', hidden_layers = 2,
       neurons_per_layer = 128, status = ''completed'', created_at = 0,
       accuracy = Some (0.85 - 0.5 * exp (- 0.4)), loss = Some (0.6 * exp (- 0.2)),
       duration = Some 2, current_epoch = 2,
       history =
         [\<lparr>epoch = 1, train_loss = 0.5 * exp (- 0.1), val_loss = 0.6 * exp (- 0.1),
           train_acc = 0.9 - 0.5 * exp (- 0.2), val_acc = 0.85 - 0.5 * exp (- 0.2)\<rparr>,
          \<lparr>epoch = 2, train_loss = 0.5 * exp (- 0.2), val_loss = 0.6 * exp (- 0.2),
           train_acc = 0.9 - 0.5 * exp (- 0.4), val_acc = 0.85 - 0.5 * exp (- 0.4)\<rparr>]\<rparr>"
    unfolding example_fractional_completed_def
    by (simp add: example_fractional_epochs_def example_config_def empty_world_def POST_def
        run_eval extend_sel experiments_row.defs ExperimentDetails.defs ExperimentHistory.defs)
  ultimately show ?thesis
    by (rule conjI)
qed

text \<open>
  Claim C1 as amended. Take a run of an existing experiment started by
  \<^verbatim>\<open>queueExperiment\<close>, and let anything happen on the server during the run that does not
  write the row or the history of this experiment (no second run of it, no deletion of
  it). Whenever the status of the experiment is \<^verbatim>\<open>completed\<close>, the runner has returned,
  \<^verbatim>\<open>epochs\<close> is at least 1, the history has as many entries as the integer part of
  \<^verbatim>\<open>epochs\<close>, numbered from 1 to it in this order (exactly \<^verbatim>\<open>epochs\<close> entries when
  \<^verbatim>\<open>epochs\<close> is an integer), the accuracy and the loss of the experiment are the
  \<^verbatim>\<open>val_acc\<close> and the \<^verbatim>\<open>val_loss\<close> of the last entry, and duration, accuracy and loss
  are not null. The restriction to a run that is left alone is needed: two runs of one
  experiment that overlap complete with each epoch recorded twice and with the accuracy
  of an entry that is not the last (lemma \<open>overlapping_runs_example\<close>). Requests for other
  experiments, polls, refused requests and the runners of other experiments leave the
  experiment untouched (lemmas \<open>untouched_POST\<close>, \<open>untouched_GET\<close>, \<open>untouched_DELETE\<close>,
  \<open>untouched_POST_run\<close>, \<open>untouched_step\<close>).
\<close>

theorem completed_run_record:
  assumes "getExperimentDetails i w = Some x0"
    and "run_among rnd i (queueExperiment i w) q w'"
    and "getExperimentDetails i w' = Some x" and "status x = ''completed''"
  shows "q = Returned \<and> 1 \<le> epochs x \<and>
         map epoch (history x) = [1..\<lfloor>epochs x\<rfloor>] \<and>
         int (length (history x)) = \<lfloor>epochs x\<rfloor> \<and>
         (isInteger (epochs x) \<longrightarrow> real (length (history x)) = epochs x) \<and>
         accuracy x = Some (val_acc (last (history x))) \<and>
         loss x = Some (val_loss (last (history x))) \<and>
         duration x \<noteq> None"
proof -
  from assms(1) obtain r0 where r0: "row_of i w = Some r0"
    by (auto simp: getExperimentDetails_row_of)
  have "row_of i (queueExperiment i w) = Some (r0\<lparr>status := ''queued'', current_epoch := 0\<rparr>)"
    by (simp add: row_of_queueExperiment r0)
  moreover have "fresh (r0\<lparr>status := ''queued'', current_epoch := 0\<rparr>)
                   (history_rows i (queueExperiment i w))"
    by (simp add: fresh_def history_rows_queueExperiment)
  ultimately obtain r where r: "row_of i w' = Some r"
    and c: "if q = Returned then settled r (history_rows i w')
            else runner_id q = Some i \<and> at_point r (history_rows i w') q"
    using run_among_inv [OF assms(2)] by blast
  from assms(3) r
  have x: "x = experiments_row.extend r (ExperimentDetails.fields (select_history i w'))"
    by (auto simp: getExperimentDetails_row_of)
  with assms(4) have st: "status r = ''completed''"
    by (simp add: extend_sel)
  have q: "q = Returned"
  proof (rule ccontr)
    assume "q \<noteq> Returned"
    with c have "runner_id q = Some i" "at_point r (history_rows i w') q"
      by simp_all
    from at_point_status [OF this(2,1)] st show False
      by simp
  qed
  with c st have s: "history_rows i w' \<noteq> []"
    "map epoch (history_rows i w') = [1..\<lfloor>epochs r\<rfloor>]"
    "accuracy r = Some (val_acc (last (history_rows i w')))"
    "loss r = Some (val_loss (last (history_rows i w')))" "duration r \<noteq> None"
    by (auto simp: settled_def)
  from sorted_history [OF s(2)] x have h: "history x = history_rows i w'"
    by (simp add: extend_sel)
  have n: "1 \<le> \<lfloor>epochs r\<rfloor>"
    using s(1,2) by (cases "1 \<le> \<lfloor>epochs r\<rfloor>") auto
  have "length (history x) = length [1..\<lfloor>epochs r\<rfloor>]"
    using s(2) h by (metis length_map)
  with n have l: "int (length (history x)) = \<lfloor>epochs r\<rfloor>"
    by simp
  have "real (length (history x)) = epochs r" if "isInteger (epochs r)"
  proof -
    from that have "epochs r = real_of_int \<lfloor>epochs r\<rfloor>"
      by (simp only: isInteger_def)
    also have "\<dots> = real_of_int (int (length (history x)))"
      by (simp only: l)
    also have "\<dots> = real (length (history x))"
      by simp
    finally show ?thesis by simp
  qed
  with q n l s h x show ?thesis
    by (simp add: extend_sel)
qed

theorem completed_run_record_witness:
  "getExperimentDetails 1 example_queued \<noteq> None \<and>
   untouched 1 (queueExperiment 1 example_queued)
     (snd (POST (Some example_hundred_epochs) (queueExperiment 1 example_queued))) \<and>
   run_among zero_draws 1 (queueExperiment 1 example_queued) Returned example_among \<and>
   (\<exists>x. getExperimentDetails 1 example_among = Some x \<and> status x = ''completed'' \<and>
        epochs x = 2 \<and> isInteger (epochs x) \<and>
        map epoch (history x) = [1..\<lfloor>epochs x\<rfloor>] \<and> map epoch (history x) = [1, 2] \<and>
        real (length (history x)) = epochs x \<and>
        accuracy x = Some (val_acc (last (history x))) \<and>
        loss x = Some (val_loss (last (history x))) \<and> duration x \<noteq> None)"
proof -
  let ?w0 = "queueExperiment 1 example_queued"
  let ?w1 = "snd (POST (Some example_hundred_epochs) ?w0)"
  obtain x0 where x0: "getExperimentDetails 1 example_queued = Some x0"
    by (simp add: example_queued_eq getExperimentDetails_def)
  have "row_of 1 ?w0 \<noteq> None"
    by (simp add: row_of_queueExperiment) (simp add: example_queued_eq row_of_def)
  then have u: "untouched 1 ?w0 ?w1"
    by (auto intro: untouched_POST)
  have "run_among zero_draws 1 ?w0 (Called 1) ?w1"
    using run_among.called u by (rule run_among.others)
  then have "run_among zero_draws 1 ?w0 Returned (snd (last (run zero_draws (Called 1) ?w1)))"
    by (rule run_among_run)
  then have r: "run_among zero_draws 1 ?w0 Returned example_among"
    by (simp add: example_among_def runExperiment_def)
  obtain x where x: "getExperimentDetails 1 example_among = Some x" "status x = ''completed''"
    "epochs x = 2"
    unfolding example_among_def
    by (simp add: queueExperiment_twice_example example_queued_eq example_hundred_epochs_def
        example_config_def POST_def run_eval extend_sel)
  have i: "isInteger (epochs x)"
    by (simp add: x(3) isInteger_def)
  have f: "[1..\<lfloor>epochs x\<rfloor>] = [1, 2]"
    by (simp add: x(3) upto.simps)
  from completed_run_record [OF x0 r x(1,2)] x0 u r x i f show ?thesis
    by auto
qed

subsection \<open>C7: the simulated metrics\<close>

text \<open>
  Claim C7. For every epoch \<open>e\<close> of a run (\<open>e = 1, 2, ...\<close> up to \<^verbatim>\<open>epochs\<close>), the metrics
  recorded for \<open>e\<close> are those of
  \<open>simulated_metrics\<close>: \<open>train_loss = 0.5 exp(-0.1 e) + 0.1 U\<close>,
  \<open>val_loss = 0.6 exp(-0.1 e) + 0.15 U\<close>, \<open>train_acc = 0.9 - 0.5 exp(-0.2 e) + 0.05 U\<close>,
  \<open>val_acc = 0.85 - 0.5 exp(-0.2 e) + 0.05 U\<close>, each \<open>U\<close> a draw of its own (four
  consecutive calls of \<^verbatim>\<open>Math.random()\<close> per epoch, none used twice), and the recorded
  history does not change when the hyperparameters learning_rate, batch_size, optimizer,
  model_type, hidden_layers and neurons_per_layer of the experiment are replaced by any
  others. That a draw lies in \<open>[0, 1)\<close> is the contract of \<^verbatim>\<open>Math.random()\<close>, a property
  of the stream \<open>rnd\<close> and not of the program.
\<close>

theorem recorded_metrics_follow_the_formulas:
  assumes "getExperimentDetails i w = Some x"
  shows "map_option history
           (getExperimentDetails i (runExperiment rnd i (queueExperiment i w))) =
         Some (map (\<lambda>e. simulated_metrics e
                           (rnd (random_calls w + 4 * nat (e - 1)))
                           (rnd (random_calls w + 4 * nat (e - 1) + 1))
                           (rnd (random_calls w + 4 * nat (e - 1) + 2))
                           (rnd (random_calls w + 4 * nat (e - 1) + 3)))
                 [1..\<lfloor>epochs x\<rfloor>]) \<and>
         map_option history
           (getExperimentDetails i
              (runExperiment rnd i
                 (queueExperiment i
                    (update_experiments i
                       (\<lambda>r. r\<lparr>learning_rate := lr, batch_size := bs, optimizer := opt,
                              model_type := mt, hidden_layers := hl,
                              neurons_per_layer := npl\<rparr>) w)))) =
         map_option history
           (getExperimentDetails i (runExperiment rnd i (queueExperiment i w)))"
proof -
  have *: "map_option history
             (getExperimentDetails i (runExperiment rnd i (queueExperiment i v))) =
           Some (map (entry rnd (random_calls v)) [1..\<lfloor>epochs r\<rfloor>])"
    if "row_of i v = Some r" for v r
  proof -
    have "run_inv rnd i \<lfloor>epochs r\<rfloor> (random_calls v) Returned
            (runExperiment rnd i (queueExperiment i v))"
      using that by (rule run_inv_enqueued_run)
    then have "progress rnd i \<lfloor>epochs r\<rfloor> (random_calls v) (max 0 \<lfloor>epochs r\<rfloor>)
                 (max 0 \<lfloor>epochs r\<rfloor>) (random_calls v + 4 * nat \<lfloor>epochs r\<rfloor>)
                 (runExperiment rnd i (queueExperiment i v))"
      by simp
    from progress_details [OF this] show ?thesis
      by (cases "1 \<le> \<lfloor>epochs r\<rfloor>") auto
  qed
  from assms obtain r where r: "row_of i w = Some r" "epochs r = epochs x"
    by (auto simp: getExperimentDetails_row_of extend_sel)
  have e: "entry rnd (random_calls w) =
           (\<lambda>e. simulated_metrics e
                  (rnd (random_calls w + 4 * nat (e - 1)))
                  (rnd (random_calls w + 4 * nat (e - 1) + 1))
                  (rnd (random_calls w + 4 * nat (e - 1) + 2))
                  (rnd (random_calls w + 4 * nat (e - 1) + 3)))"
    by (rule ext) (simp add: entry_def Let_def)
  from * [OF r(1)] r(2) have one: "map_option history
           (getExperimentDetails i (runExperiment rnd i (queueExperiment i w))) =
         Some (map (\<lambda>e. simulated_metrics e
                           (rnd (random_calls w + 4 * nat (e - 1)))
                           (rnd (random_calls w + 4 * nat (e - 1) + 1))
                           (rnd (random_calls w + 4 * nat (e - 1) + 2))
                           (rnd (random_calls w + 4 * nat (e - 1) + 3)))
                 [1..\<lfloor>epochs x\<rfloor>])"
    by (simp add: e)
  let ?f = "\<lambda>r. r\<lparr>learning_rate := lr, batch_size := bs, optimizer := opt,
                  model_type := mt, hidden_layers := hl, neurons_per_layer := npl\<rparr>"
  have "row_of i (update_experiments i ?f w) = Some (?f r)"
    using r(1) by (simp add: row_of_update)
  from * [OF this] have a: "map_option history
           (getExperimentDetails i
              (runExperiment rnd i (queueExperiment i (update_experiments i ?f w)))) =
         Some (map (entry rnd (random_calls w)) [1..\<lfloor>epochs r\<rfloor>])"
    by simp
  have two: "map_option history
           (getExperimentDetails i
              (runExperiment rnd i (queueExperiment i (update_experiments i ?f w)))) =
         map_option history
           (getExperimentDetails i (runExperiment rnd i (queueExperiment i w)))"
    by (simp only: a * [OF r(1)])
  from one two show ?thesis
    by (rule conjI)
qed

theorem recorded_metrics_follow_the_formulas_witness:
  "map_option epochs (getExperimentDetails 1 example_queued) = Some 2 \<and>
   map_option history
     (getExperimentDetails 1 (runExperiment example_draws 1 (queueExperiment 1 example_queued))) =
   Some [simulated_metrics 1 (example_draws 0) (example_draws 1) (example_draws 2)
           (example_draws 3),
         simulated_metrics 2 (example_draws 4) (example_draws 5) (example_draws 6)
           (example_draws 7)]"
proof -
  obtain x where x: "getExperimentDetails 1 example_queued = Some x" "epochs x = 2"
    by (simp add: example_queued_eq getExperimentDetails_def extend_sel)
  have u: "[1..2::int] = [1, 2]"
    by (simp add: upto.simps)
  have r: "random_calls example_queued = 0"
    by (simp add: example_queued_eq)
  from recorded_metrics_follow_the_formulas [OF x(1), of example_draws] x
  show ?thesis
    by (simp add: u r numeral_2_eq_2)
qed

subsection \<open>C2: the order of the steps of an epoch\<close>

text \<open>
  Claim C2 says that in every epoch the runner first computes the metrics, then appends
  the history entry, then updates \<^verbatim>\<open>current_epoch\<close>, then sleeps, so that the entry of
  epoch \<open>e\<close> exists whenever \<^verbatim>\<open>current_epoch\<close> has been set to \<open>e\<close>. The source does it
  the other way round: in the example run the update of \<^verbatim>\<open>current_epoch\<close> to 1 comes
  before the sleep and the insertion, and while the runner sleeps in epoch 1 a poll finds
  \<^verbatim>\<open>current_epoch = 1\<close> and an empty history.
\<close>

theorem current_epoch_set_before_history_counterexample:
  "statements zero_draws (Called 1) example_queued =
     [Get_details, Set_running, Set_current_epoch 1, Sleep 1, Insert_history 1,
      Set_current_epoch 2, Sleep 2, Insert_history 2, Select_last, Set_completed, Return] \<and>
   statement_of (fst (run zero_draws (Called 1) example_queued ! 3)) = Sleep 1 \<and>
   map_option current_epoch
     (getExperimentDetails 1 (snd (run zero_draws (Called 1) example_queued ! 3))) = Some 1 \<and>
   map_option history
     (getExperimentDetails 1 (snd (run zero_draws (Called 1) example_queued ! 3))) = Some []"
  using example_statements example_third by simp

text \<open>
  Claim C2 as amended. A run of an existing experiment started by \<^verbatim>\<open>queueExperiment\<close>
  executes, for every epoch \<open>e\<close> from 1 to \<^verbatim>\<open>epochs\<close> in increasing order (to the integer
  part of \<^verbatim>\<open>epochs\<close>, should \<^verbatim>\<open>epochs\<close> not be an integer), first the
  update of \<^verbatim>\<open>current_epoch\<close> to \<open>e\<close>, then the fixed delay, then (with the metrics
  computed) the insertion of the history entry of \<open>e\<close>. Before the update of epoch \<open>e\<close>
  a poll finds \<^verbatim>\<open>current_epoch = e - 1\<close> and the entries of epochs \<open>1..e - 1\<close>; during the
  delay and until the insertion it finds \<^verbatim>\<open>current_epoch = e\<close> and still the entries of
  \<open>1..e - 1\<close>: when \<^verbatim>\<open>current_epoch\<close> has been set to \<open>e\<close>, the entries of the epochs
  before \<open>e\<close> have been written and the entry of \<open>e\<close> has not.
\<close>

theorem epoch_steps_in_source_order:
  assumes "getExperimentDetails i w = Some experiment"
  shows "statements rnd (Called i) (queueExperiment i w) =
           [Get_details, Set_running] @
           concat (map epoch_statements [1..\<lfloor>epochs experiment\<rfloor>]) @
           [Select_last, if 1 \<le> epochs experiment then Set_completed else Set_failed, Return] \<and>
         (\<forall>c \<in> set (run rnd (Called i) (queueExperiment i w)).
            \<exists>x. getExperimentDetails i (snd c) = Some x \<and>
              (case fst c of
                 UpdateEpoch j y st e \<Rightarrow>
                   current_epoch x = e - 1 \<and> map epoch (history x) = [1..e - 1]
               | Sleeping j y st e \<Rightarrow>
                   current_epoch x = e \<and> map epoch (history x) = [1..e - 1]
               | InsertHistory j y st e a b c d \<Rightarrow>
                   current_epoch x = e \<and> map epoch (history x) = [1..e - 1]
               | _ \<Rightarrow> True))"
proof -
  from assms obtain r where r: "row_of i w = Some r" "epochs r = epochs experiment"
    by (auto simp: getExperimentDetails_row_of extend_sel)
  have inv: "run_inv rnd i \<lfloor>epochs experiment\<rfloor> (random_calls w) (Called i)
               (queueExperiment i w)"
    using run_inv_queued [OF r(1)] r(2) by simp
  have "run_inv rnd i \<lfloor>epochs experiment\<rfloor> (random_calls w) (fst c) (snd c)"
    if "c \<in> set (run rnd (Called i) (queueExperiment i w))" for c
    using inv that by (rule run_inv_run)
  moreover from statements_run [OF inv]
  have "statements rnd (Called i) (queueExperiment i w) =
           [Get_details, Set_running] @
           concat (map epoch_statements [1..\<lfloor>epochs experiment\<rfloor>]) @
           [Select_last, if 1 \<le> epochs experiment then Set_completed else Set_failed, Return]"
    by simp
  ultimately show ?thesis
    by (blast dest: run_inv_observed)
qed

theorem epoch_steps_in_source_order_witness:
  "map_option epochs (getExperimentDetails 1 example_queued) = Some 2 \<and>
   statements zero_draws (Called 1) (queueExperiment 1 example_queued) =
     [Get_details, Set_running, Set_current_epoch 1, Sleep 1, Insert_history 1,
      Set_current_epoch 2, Sleep 2, Insert_history 2, Select_last, Set_completed, Return] \<and>
   run zero_draws (Called 1) (queueExperiment 1 example_queued) ! 3
     \<in> set (run zero_draws (Called 1) (queueExperiment 1 example_queued)) \<and>
   statement_of (fst (run zero_draws (Called 1) (queueExperiment 1 example_queued) ! 3)) =
     Sleep 1 \<and>
   (\<exists>x. getExperimentDetails 1
           (snd (run zero_draws (Called 1) (queueExperiment 1 example_queued) ! 3)) = Some x \<and>
        current_epoch x = 1 \<and> map epoch (history x) = [])"
proof -
  let ?c = "run zero_draws (Called 1) (queueExperiment 1 example_queued) ! 3"
  obtain x where x: "getExperimentDetails 1 example_queued = Some x" "epochs x = 2"
    by (simp add: example_queued_eq getExperimentDetails_def extend_sel)
  have u: "[1..2::int] = [1, 2]"
    by (simp add: upto.simps)
  have m: "?c \<in> set (run zero_draws (Called 1) (queueExperiment 1 example_queued))"
    by (rule nth_mem) (simp add: queueExperiment_twice_example example_queued_eq run_eval)
  obtain y where y: "fst ?c = Sleeping 1 y 0 1"
    by (simp add: queueExperiment_twice_example example_queued_eq run_eval)
  from epoch_steps_in_source_order [OF x(1), of zero_draws] x u m y
  show ?thesis
    by (auto simp: epoch_statements_def)
qed

subsection \<open>C5: the range and the growth of \<^verbatim>\<open>current_epoch\<close>\<close>




end
